theory Spec2Isabelle
  imports Main "HOL-Library.Sublist" "HOL-Library.AList"
begin

section \<open>Data model\<close>

text \<open>
  The check status of a pull request (package github, type of
  \<^verbatim>\<open>PullRequestMergeStatus.ChecksPass\<close>). The four constants are the ones the state
  code names; \<open>CheckStatusUnknown\<close> is the value a freshly made
  \<^verbatim>\<open>PullRequestMergeStatus{}\<close> carries.
\<close>

datatype checkStatus =
  CheckStatusUnknown | CheckStatusPending | CheckStatusPass | CheckStatusFail

text \<open>\<^verbatim>\<open>git.Commit\<close>: strings are byte sequences, as in Go.\<close>

record Commit =
  CommitID :: string
  CommitHash :: string
  Subject :: string
  Body :: string
  WIP :: bool

record PullRequestMergeStatus =
  ChecksPass :: checkStatus
  ReviewApproved :: bool
  NoConflicts :: bool
  Stacked :: bool

text \<open>
  \<^verbatim>\<open>github.PullRequest\<close>, with the fields the state code fills. \<open>Id_pr\<close>, \<open>Body_pr\<close>
  and \<open>Commit_pr\<close> are the fields \<^verbatim>\<open>Id\<close>, \<^verbatim>\<open>Body\<close> and \<^verbatim>\<open>Commit\<close>.
\<close>

record PullRequest =
  Id_pr :: string
  DatabaseId :: string
  Number :: int
  FromBranch :: string
  ToBranch :: string
  Title :: string
  Body_pr :: string
  MergeStatus :: PullRequestMergeStatus
  Commit_pr :: Commit

text \<open>
  A \<^verbatim>\<open>*github.PullRequest\<close> is an address into a store of pull request objects; the
  nil pointer is \<open>None\<close>. The store is a list: an allocation appends, and the new
  object's address is the length the store had.
\<close>

type_synonym pr_ref = nat
type_synonym pr_heap = "PullRequest list"

text \<open>\<^verbatim>\<open>LocalCommit\<close>: the embedded \<^verbatim>\<open>git.Commit\<close> is the field \<open>Commit\<close>.\<close>

record LocalCommit =
  Commit :: Commit
  PullRequest :: "pr_ref option"
  Index :: int
  PRIndex :: "int option"

record Indices =
  DestinationPRIndex :: "int option"
  CommitIndexes :: "int set"

record State =
  RepositoryId :: string
  LocalCommits :: "LocalCommit list"
  OrphanedPRs :: "pr_ref option set"
  MutatedPRSets :: "int set"

text \<open>The parts of \<^verbatim>\<open>config.Config\<close> the modelled code reads and writes.\<close>

record RepoConfig =
  GitHubRepoOwner :: string
  GitHubRepoName :: string
  GitHubRemote :: string
  RequireChecks :: bool
  RequireApproval :: bool
  MergeCheck :: string

text \<open>
  A Go map is a finite table: a list of pairs with one pair per key. \<open>map_of\<close> looks a
  key up and \<open>AList.update\<close> stores a value under a key; the order of the pairs has no
  meaning (Go's iteration order is not fixed).
\<close>

type_synonym ('k, 'v) gomap = "('k \<times> 'v) list"

record InternalState =
  RepoToCommitIdToPRSet :: "(string, (string, int) gomap) gomap"
  MergeCheckCommit :: "(string, string) gomap"

record Config =
  Repo :: RepoConfig
  State_cfg :: InternalState

text \<open>
  The forge's answer (\<^verbatim>\<open>genqlient.PullRequestsAndStatusResponse\<close>): a node per open
  pull request of the viewer. The enumeration types of the forge are Go strings.
\<close>

record CommitNode =
  Oid :: string
  MessageHeadline :: string
  MessageBody :: string

record PullRequestNode =
  Id_node :: string
  DatabaseId_node :: int
  Number_node :: int
  HeadRefName :: string
  BaseRefName :: string
  Title_node :: string
  Body_node :: string
  StatusCheckRollup_State :: string
  Mergeable :: string
  ReviewDecision :: string
  Commits_Nodes :: "CommitNode list"

record PullRequestsAndStatusResponse =
  Repository_Id :: string
  PullRequests_Nodes :: "PullRequestNode list"

definition StatusStateError :: string where "StatusStateError = ''ERROR''"
definition StatusStateExpected :: string where "StatusStateExpected = ''EXPECTED''"
definition StatusStateFailure :: string where "StatusStateFailure = ''FAILURE''"
definition StatusStatePending :: string where "StatusStatePending = ''PENDING''"
definition StatusStateSuccess :: string where "StatusStateSuccess = ''SUCCESS''"
definition MergeableStateMergeable :: string where "MergeableStateMergeable = ''MERGEABLE''"
definition PullRequestReviewDecisionApproved :: string where
  "PullRequestReviewDecisionApproved = ''APPROVED''"

section \<open>Check rollup\<close>

text \<open>
  \<^verbatim>\<open>ComputeMergeStatus\<close> (state assembly of the PR-set flow). The switch has no
  default: a state it does not list leaves the flag as \<^verbatim>\<open>PullRequestMergeStatus{}\<close>
  made it.
\<close>

definition ComputeMergeStatus :: "PullRequestNode \<Rightarrow> PullRequestMergeStatus" where
  "ComputeMergeStatus pr =
    (let prms = \<lparr>ChecksPass = CheckStatusUnknown, ReviewApproved = False,
                   NoConflicts = False, Stacked = False\<rparr>;
         st = StatusCheckRollup_State pr;
         prms1 =
           (if st = StatusStateError \<or> st = StatusStateFailure
              then prms\<lparr>ChecksPass := CheckStatusFail\<rparr>
            else if st = StatusStateExpected \<or> st = StatusStatePending
              then prms\<lparr>ChecksPass := CheckStatusPending\<rparr>
            else if st = [] \<or> st = StatusStateSuccess
              then prms\<lparr>ChecksPass := CheckStatusPass\<rparr>
            else prms);
         prms2 = prms1\<lparr>NoConflicts := (Mergeable pr = MergeableStateMergeable)\<rparr>
     in prms2\<lparr>ReviewApproved := (ReviewDecision pr = PullRequestReviewDecisionApproved)\<rparr>)"

text \<open>
  \<^verbatim>\<open>ComputeCheckStatus\<close> (the QL reader): the first commit node's rollup, a pointer
  that may be nil (\<open>None\<close>).
\<close>

definition ComputeCheckStatus ::
  "string option list \<Rightarrow> PullRequestMergeStatus \<Rightarrow> PullRequestMergeStatus" where
  "ComputeCheckStatus prCommitsNodes prms =
    (case prCommitsNodes of
       Some st # _ \<Rightarrow>
         (if st = ''SUCCESS'' then prms\<lparr>ChecksPass := CheckStatusPass\<rparr>
          else if st = ''PENDING'' then prms\<lparr>ChecksPass := CheckStatusPending\<rparr>
          else if st = ''ERROR'' \<or> st = ''FAILURE'' then prms\<lparr>ChecksPass := CheckStatusFail\<rparr>
          else prms\<lparr>ChecksPass := CheckStatusUnknown\<rparr>)
     | _ \<Rightarrow> prms\<lparr>ChecksPass := CheckStatusUnknown\<rparr>)"

text \<open>
  The check status switch of \<^verbatim>\<open>matchPullRequestStack\<close> (the classic reader), on the
  rollup state of the pull request's last commit.
\<close>

definition matchPullRequestStack_checkStatus :: "string \<Rightarrow> checkStatus" where
  "matchPullRequestStack_checkStatus st =
    (if st \<noteq> [] then
       (if st = ''SUCCESS'' then CheckStatusPass
        else if st = ''PENDING'' then CheckStatusPending
        else CheckStatusFail)
     else CheckStatusPass)"

section \<open>Branch names\<close>

text \<open>\<^verbatim>\<open>strings.Split(s, sep)\<close> for a separator of one byte.\<close>

fun strings_Split :: "string \<Rightarrow> char \<Rightarrow> string list" where
  "strings_Split [] sep = [[]]"
| "strings_Split (c # cs) sep =
    (if c = sep then [] # strings_Split cs sep
     else (case strings_Split cs sep of
             seg # segs \<Rightarrow> (c # seg) # segs
           | [] \<Rightarrow> [[c]]))"

definition CommitIdFromBranch :: "string \<Rightarrow> string" where
  "CommitIdFromBranch branchName =
    (let segments = strings_Split branchName (CHR ''/'') in
     if length segments \<noteq> 3 then []
     else if segments ! 0 \<noteq> ''spr'' then []
     else let commitId = segments ! 2 in
          if length commitId \<noteq> 8 then [] else commitId)"

section \<open>Reading the local commits\<close>

text \<open>\<^verbatim>\<open>object.Commit\<close> of go-git: \<open>Hash\<close> is the hash as \<^verbatim>\<open>Hash.String()\<close> prints it.\<close>

record ObjectCommit =
  Hash :: string
  Message :: string
  ParentHashes :: "string list"

definition newline :: char where "newline = CHR 0x0A"

text \<open>\<^verbatim>\<open>strings.SplitN(s, sep, 2)\<close> for a separator of one byte.\<close>

definition strings_SplitN_2 :: "string \<Rightarrow> char \<Rightarrow> string list" where
  "strings_SplitN_2 s sep =
    (case dropWhile (\<lambda>c. c \<noteq> sep) s of
       [] \<Rightarrow> [s]
     | _ # rest \<Rightarrow> [takeWhile (\<lambda>c. c \<noteq> sep) s, rest])"

definition IsWIP :: "string \<Rightarrow> bool" where
  "IsWIP msg = (prefix ''WIP'' msg \<or> prefix ''[WIP]'' msg)"

definition Subject_of :: "string \<Rightarrow> string" where
  "Subject_of msg = hd (strings_SplitN_2 msg newline)"

definition Body_of :: "string \<Rightarrow> string" where
  "Body_of msg =
    (let res = strings_SplitN_2 msg newline in
     if length res < 2 then [] else res ! 1)"

text \<open>
  \<^verbatim>\<open>CommitId\<close>: the first match of the regular expression
  \<^verbatim>\<open>(?m)^commit-id\:([a-f0-9]{8})$\<close>, that is the first line of the message that is
  \<^verbatim>\<open>commit-id:\<close> followed by eight characters of \<^verbatim>\<open>[a-f0-9]\<close> and nothing else.
\<close>

definition is_lower_hex :: "char \<Rightarrow> bool" where
  "is_lower_hex c = (c \<in> set ''abcdef0123456789'')"

definition commitIDRegex_line :: "string \<Rightarrow> bool" where
  "commitIDRegex_line l =
    (take 10 l = ''commit-id:'' \<and> length l = 18 \<and> list_all is_lower_hex (drop 10 l))"

definition CommitId :: "string \<Rightarrow> string" where
  "CommitId msg =
    (case find commitIDRegex_line (strings_Split msg newline) of
       None \<Rightarrow> []
     | Some l \<Rightarrow> drop 10 l)"

definition HeadFirst :: "ObjectCommit list \<Rightarrow> ObjectCommit list" where
  "HeadFirst commits =
    (case commits of
       c0 # c1 # _ \<Rightarrow> if Hash c1 \<in> set (ParentHashes c0) then commits else rev commits
     | _ \<Rightarrow> commits)"

fun GenerateCommits_loop :: "nat \<Rightarrow> nat \<Rightarrow> ObjectCommit list \<Rightarrow> LocalCommit list" where
  "GenerateCommits_loop n i [] = []"
| "GenerateCommits_loop n i (cm # rest) =
    \<lparr>Commit = \<lparr>CommitID = CommitId (Message cm), CommitHash = Hash cm,
                Subject = Subject_of (Message cm), Body = Body_of (Message cm),
                WIP = IsWIP (Message cm)\<rparr>,
      PullRequest = None,
      Index = int n - (int i + 1),
      PRIndex = None\<rparr> # GenerateCommits_loop n (Suc i) rest"

definition GenerateCommits :: "ObjectCommit list \<Rightarrow> LocalCommit list" where
  "GenerateCommits commits =
    (let commits1 = HeadFirst commits in
     GenerateCommits_loop (length commits1) 0 commits1)"

section \<open>Reading the forge\<close>

text \<open>\<^verbatim>\<open>fmt.Sprintf("%d", i)\<close>.\<close>

fun show_nat :: "nat \<Rightarrow> string" where
  "show_nat n =
    (if n < 10 then [''0123456789'' ! n]
     else show_nat (n div 10) @ [''0123456789'' ! (n mod 10)])"

definition show_int :: "int \<Rightarrow> string" where
  "show_int i = (if i < 0 then CHR ''-'' # show_nat (nat (- i)) else show_nat (nat i))"

text \<open>
  \<^verbatim>\<open>GeneratePullRequestMap\<close>. Every node with a commit-id allocates a pull request
  object and stores its address under the commit-id; a later node with the same
  commit-id replaces the entry. A nil response or nil node slice is the empty list of
  nodes (the loop over a nil slice does nothing, as the early return).
\<close>

fun GeneratePullRequestMap_loop ::
  "PullRequestNode list \<Rightarrow> (string, pr_ref) gomap \<Rightarrow> pr_heap
    \<Rightarrow> (string, pr_ref) gomap \<times> pr_heap" where
  "GeneratePullRequestMap_loop [] prMap heap = (prMap, heap)"
| "GeneratePullRequestMap_loop (prNode # rest) prMap heap =
    (let commitID = CommitIdFromBranch (HeadRefName prNode) in
     if commitID = [] then GeneratePullRequestMap_loop rest prMap heap
     else
       let commit = (case Commits_Nodes prNode of
                       [] \<Rightarrow> \<lparr>Oid = [], MessageHeadline = [], MessageBody = []\<rparr>
                     | c # _ \<Rightarrow> c);
           ghpr = \<lparr>Id_pr = Id_node prNode,
                   DatabaseId = show_int (DatabaseId_node prNode),
                   Number = Number_node prNode,
                   FromBranch = HeadRefName prNode,
                   ToBranch = BaseRefName prNode,
                   Title = Title_node prNode,
                   Body_pr = Body_node prNode,
                   MergeStatus = ComputeMergeStatus prNode,
                   Commit_pr = \<lparr>CommitID = commitID, CommitHash = Oid commit,
                                Subject = MessageHeadline commit, Body = MessageBody commit,
                                WIP = IsWIP (MessageHeadline commit)\<rparr>\<rparr>
       in GeneratePullRequestMap_loop rest (AList.update commitID (length heap) prMap)
            (heap @ [ghpr]))"

definition GeneratePullRequestMap ::
  "PullRequestsAndStatusResponse \<Rightarrow> (string, pr_ref) gomap \<times> pr_heap" where
  "GeneratePullRequestMap prAndStatus =
    GeneratePullRequestMap_loop (PullRequests_Nodes prAndStatus) [] []"

section \<open>State assembly\<close>

text \<open>
  Modelled from the spec: package \<^verbatim>\<open>maputils\<close> (\<^verbatim>\<open>NewGC\<close>, \<^verbatim>\<open>Lookup\<close>,
  \<^verbatim>\<open>GetUnaccessed\<close>, \<^verbatim>\<open>PurgeUnaccessed\<close>) is not among the sources. A garbage
  collecting map wraps a map and remembers the keys that were looked up;
  the unaccessed entries are those never looked up, and purging drops them
  (``drop keys no longer present'', ``PRs whose key is not present in any LocalCommit'').
\<close>

record ('k, 'v) GC =
  gc_entries :: "('k, 'v) gomap"
  gc_accessed :: "'k set"

definition NewGC :: "('k, 'v) gomap \<Rightarrow> ('k, 'v) GC" where
  "NewGC m = \<lparr>gc_entries = m, gc_accessed = {}\<rparr>"

definition Lookup :: "('k, 'v) GC \<Rightarrow> 'k \<Rightarrow> 'v option \<times> ('k, 'v) GC" where
  "Lookup gc k = (map_of (gc_entries gc) k, gc\<lparr>gc_accessed := insert k (gc_accessed gc)\<rparr>)"

definition GetUnaccessed :: "('k, 'v) GC \<Rightarrow> ('k, 'v) gomap" where
  "GetUnaccessed gc = filter (\<lambda>(k, v). k \<notin> gc_accessed gc) (gc_entries gc)"

definition PurgeUnaccessed :: "('k, 'v) GC \<Rightarrow> ('k, 'v) gomap" where
  "PurgeUnaccessed gc = filter (\<lambda>(k, v). k \<in> gc_accessed gc) (gc_entries gc)"

fun GetOrphanedPRs_loop ::
  "LocalCommit list \<Rightarrow> (string, pr_ref) GC \<Rightarrow> (string, pr_ref) GC" where
  "GetOrphanedPRs_loop [] prGCMap = prGCMap"
| "GetOrphanedPRs_loop (gitCommit # rest) prGCMap =
    GetOrphanedPRs_loop rest (snd (Lookup prGCMap (CommitID (Commit gitCommit))))"

definition GetOrphanedPRs ::
  "LocalCommit list \<Rightarrow> (string, pr_ref) gomap \<Rightarrow> pr_ref option set" where
  "GetOrphanedPRs gitCommits prMap =
    set (map (\<lambda>(k, v). Some v) (GetUnaccessed (GetOrphanedPRs_loop gitCommits (NewGC prMap))))"

text \<open>The persisted PR-set map of the configured repository; none is the empty map.\<close>

definition prSetMap_of :: "Config \<Rightarrow> (string, int) gomap" where
  "prSetMap_of config =
    (case map_of (RepoToCommitIdToPRSet (State_cfg config)) (GitHubRepoName (Repo config)) of
       None \<Rightarrow> []
     | Some prSetMap \<Rightarrow> prSetMap)"

definition set_prSetMap :: "Config \<Rightarrow> (string, int) gomap \<Rightarrow> Config" where
  "set_prSetMap config prSetMap =
    config\<lparr>State_cfg := (State_cfg config)\<lparr>RepoToCommitIdToPRSet :=
      AList.update (GitHubRepoName (Repo config)) prSetMap
        (RepoToCommitIdToPRSet (State_cfg config))\<rparr>\<rparr>"

fun UpdateRepoToCommitIdToPrSet_loop ::
  "(string, pr_ref) gomap \<Rightarrow> LocalCommit list \<Rightarrow> (string, int) GC \<Rightarrow> (string, int) GC" where
  "UpdateRepoToCommitIdToPrSet_loop prMap [] purgeMap = purgeMap"
| "UpdateRepoToCommitIdToPrSet_loop prMap (gitCommit # rest) purgeMap =
    (case map_of prMap (CommitID (Commit gitCommit)) of
       Some _ \<Rightarrow> UpdateRepoToCommitIdToPrSet_loop prMap rest
                  (snd (Lookup purgeMap (CommitID (Commit gitCommit))))
     | None \<Rightarrow> UpdateRepoToCommitIdToPrSet_loop prMap rest purgeMap)"

definition UpdateRepoToCommitIdToPrSet ::
  "Config \<Rightarrow> LocalCommit list \<Rightarrow> (string, pr_ref) gomap \<Rightarrow> Config" where
  "UpdateRepoToCommitIdToPrSet config gitCommits prMap =
    set_prSetMap config
      (PurgeUnaccessed (UpdateRepoToCommitIdToPrSet_loop prMap gitCommits (NewGC (prSetMap_of config))))"

definition AssignPullRequests_step ::
  "(string, int) gomap \<Rightarrow> (string, pr_ref) gomap \<Rightarrow> LocalCommit \<Rightarrow> LocalCommit" where
  "AssignPullRequests_step prSetMap prMap gitCommit =
    (case map_of prMap (CommitID (Commit gitCommit)) of
       Some pr \<Rightarrow>
         (case map_of prSetMap (CommitID (Commit gitCommit)) of
            Some prIndex \<Rightarrow> gitCommit\<lparr>PRIndex := Some prIndex\<rparr>
          | None \<Rightarrow> gitCommit)\<lparr>PullRequest := Some pr\<rparr>
     | None \<Rightarrow> gitCommit)"

definition AssignPullRequests ::
  "Config \<Rightarrow> LocalCommit list \<Rightarrow> (string, pr_ref) gomap \<Rightarrow> LocalCommit list" where
  "AssignPullRequests config gitCommits prMap =
    map (AssignPullRequests_step (prSetMap_of config) prMap) gitCommits"

text \<open>
  \<^verbatim>\<open>SetStackedCheck\<close> walks the commits from the last of the slice (the oldest) to
  the first; the loop below takes them in that order. It writes the flag into the pull
  request object the commit points to.
\<close>

definition set_Stacked :: "PullRequest \<Rightarrow> PullRequest" where
  "set_Stacked pr = pr\<lparr>MergeStatus := (MergeStatus pr)\<lparr>Stacked := True\<rparr>\<rparr>"

fun SetStackedCheck_loop :: "Config \<Rightarrow> LocalCommit list \<Rightarrow> pr_heap \<Rightarrow> pr_heap" where
  "SetStackedCheck_loop config [] heap = heap"
| "SetStackedCheck_loop config (cm # rest) heap =
    (case PullRequest cm of
       None \<Rightarrow> SetStackedCheck_loop config rest heap
     | Some a \<Rightarrow>
         if WIP (Commit cm) then heap
         else if \<not> NoConflicts (MergeStatus (heap ! a)) then heap
         else if RequireChecks (Repo config)
                 \<and> ChecksPass (MergeStatus (heap ! a)) \<noteq> CheckStatusPass then heap
         else if RequireApproval (Repo config)
                 \<and> \<not> ReviewApproved (MergeStatus (heap ! a)) then heap
         else SetStackedCheck_loop config rest (heap[a := set_Stacked (heap ! a)]))"

definition SetStackedCheck :: "Config \<Rightarrow> LocalCommit list \<Rightarrow> pr_heap \<Rightarrow> pr_heap" where
  "SetStackedCheck config gitCommits heap = SetStackedCheck_loop config (rev gitCommits) heap"

text \<open>
  \<^verbatim>\<open>NewState\<close> returns the state; the model returns with it the configuration,
  whose persisted map the assembly rewrites, and the store of pull request objects.
\<close>

definition NewState ::
  "Config \<Rightarrow> PullRequestsAndStatusResponse \<Rightarrow> ObjectCommit list \<Rightarrow> State \<times> Config \<times> pr_heap" where
  "NewState config prAndStatus commits =
    (let (prMap, heap) = GeneratePullRequestMap prAndStatus;
         gitCommits = map (\<lambda>gitCommit. gitCommit\<lparr>PullRequest :=
                                          map_of prMap (CommitID (Commit gitCommit))\<rparr>)
                        (GenerateCommits commits);
         orphanedPRs = GetOrphanedPRs gitCommits prMap;
         config1 = UpdateRepoToCommitIdToPrSet config gitCommits prMap;
         gitCommits1 = AssignPullRequests config1 gitCommits prMap;
         heap1 = SetStackedCheck config1 gitCommits1 heap
     in (\<lparr>RepositoryId = Repository_Id prAndStatus, LocalCommits = gitCommits1,
          OrphanedPRs = orphanedPRs, MutatedPRSets = {}\<rparr>, config1, heap1))"

section \<open>Applying a selection\<close>

text \<open>
  Go's \<^verbatim>\<open>int\<close> is a 64-bit signed integer: a sum is reduced into
  \<open>-2^63 ..< 2^63\<close>.
\<close>

definition int64_wrap :: "int \<Rightarrow> int" where
  "int64_wrap x = (x + 2 ^ 63) mod 2 ^ 64 - 2 ^ 63"

text \<open>The loop of \<^verbatim>\<open>ApplyIndices\<close> that finds the next free PR-set index.\<close>

fun nextDestinationPRIndex :: "LocalCommit list \<Rightarrow> int \<Rightarrow> int" where
  "nextDestinationPRIndex [] n = n"
| "nextDestinationPRIndex (cm # rest) n =
    (case PRIndex cm of
       Some p \<Rightarrow>
         if p \<ge> n then nextDestinationPRIndex rest (int64_wrap (p + 1))
         else nextDestinationPRIndex rest n
     | None \<Rightarrow> nextDestinationPRIndex rest n)"

text \<open>One pass of the membership loop, on one commit.\<close>

definition ApplyIndices_step ::
  "int \<Rightarrow> int set \<Rightarrow> LocalCommit \<Rightarrow> pr_ref option set \<Rightarrow> int set
    \<Rightarrow> LocalCommit \<times> pr_ref option set \<times> int set" where
  "ApplyIndices_step dest commitIndexes cm orphaned mutated =
    (let shouldBeInPrSet = (Index cm \<in> commitIndexes);
         isInPrSet = (PRIndex cm = Some dest)
     in if isInPrSet \<and> shouldBeInPrSet then (cm, orphaned, mutated)
        else if \<not> isInPrSet \<and> \<not> shouldBeInPrSet then (cm, orphaned, mutated)
        else if isInPrSet \<and> \<not> shouldBeInPrSet then
          (cm\<lparr>PRIndex := None\<rparr>, insert (PullRequest cm) orphaned, insert dest mutated)
        else
          (cm\<lparr>PRIndex := Some dest\<rparr>, orphaned,
           insert dest (case PRIndex cm of Some p \<Rightarrow> insert p mutated | None \<Rightarrow> mutated)))"

fun ApplyIndices_loop ::
  "int \<Rightarrow> int set \<Rightarrow> LocalCommit list \<Rightarrow> pr_ref option set \<Rightarrow> int set
    \<Rightarrow> LocalCommit list \<times> pr_ref option set \<times> int set" where
  "ApplyIndices_loop dest commitIndexes [] orphaned mutated = ([], orphaned, mutated)"
| "ApplyIndices_loop dest commitIndexes (cm # rest) orphaned mutated =
    (case ApplyIndices_step dest commitIndexes cm orphaned mutated of
       (cm1, orphaned1, mutated1) \<Rightarrow>
         (case ApplyIndices_loop dest commitIndexes rest orphaned1 mutated1 of
            (rest1, orphaned2, mutated2) \<Rightarrow> (cm1 # rest1, orphaned2, mutated2)))"

fun existingPRSets :: "LocalCommit list \<Rightarrow> int set \<Rightarrow> int set" where
  "existingPRSets [] existing = existing"
| "existingPRSets (cm # rest) existing =
    (case PRIndex cm of
       None \<Rightarrow> existingPRSets rest existing
     | Some p \<Rightarrow> existingPRSets rest (insert p existing))"

text \<open>
  \<^verbatim>\<open>ApplyIndices\<close> changes the state and the selection it is given: the model
  returns both.
\<close>

definition ApplyIndices :: "State \<Rightarrow> Indices \<Rightarrow> State \<times> Indices" where
  "ApplyIndices s indices =
    (if DestinationPRIndex indices = None \<and> CommitIndexes indices = {} then (s, indices)
     else
       let dest = (case DestinationPRIndex indices of
                     None \<Rightarrow> nextDestinationPRIndex (LocalCommits s) 0
                   | Some d \<Rightarrow> d);
           indices1 = indices\<lparr>DestinationPRIndex := Some dest\<rparr>
       in (case ApplyIndices_loop dest (CommitIndexes indices1) (LocalCommits s)
                  (OrphanedPRs s) (MutatedPRSets s) of
             (commits, orphaned, mutated) \<Rightarrow>
               (s\<lparr>LocalCommits := commits, OrphanedPRs := orphaned,
                  MutatedPRSets := mutated \<inter> existingPRSets commits {}\<rparr>, indices1)))"

definition CommitsByPRSet :: "State \<Rightarrow> int \<Rightarrow> LocalCommit list" where
  "CommitsByPRSet s prIndex = filter (\<lambda>ci. PRIndex ci = Some prIndex) (LocalCommits s)"

section \<open>Persisting the PR-set map\<close>

fun UpdatePRSetState_loop ::
  "LocalCommit list \<Rightarrow> (string, int) gomap \<Rightarrow> (string, int) gomap" where
  "UpdatePRSetState_loop [] prSetMap = prSetMap"
| "UpdatePRSetState_loop (commit # rest) prSetMap =
    (case PRIndex commit of
       None \<Rightarrow> UpdatePRSetState_loop rest prSetMap
     | Some p \<Rightarrow> UpdatePRSetState_loop rest (AList.update (CommitID (Commit commit)) p prSetMap))"

definition UpdatePRSetState :: "State \<Rightarrow> Config \<Rightarrow> Config" where
  "UpdatePRSetState s config =
    set_prSetMap config (UpdatePRSetState_loop (LocalCommits s) [])"

section \<open>Merging a PR set\<close>

text \<open>
  The errors \<^verbatim>\<open>check\<close> ends the process with. \<open>MergeCheckRequired\<close> is
  \<^verbatim>\<open>need to run merge check 'spr check' before merging\<close>; \<open>UnableToParsePRSetIndex\<close>
  and \<open>InvalidIndex\<close> carry the index as it was typed; \<open>OtherError\<close> is an error of
  the git or forge calls.
\<close>

datatype error =
  MergeCheckRequired
  | UnableToParsePRSetIndex string
  | InvalidIndex string
  | OtherError string

text \<open>
  The merge check block of \<^verbatim>\<open>MergePRSet\<close>. \<open>key\<close> is \<^verbatim>\<open>githubInfo.Key()\<close>. The
  first commit of \<^verbatim>\<open>CommitsByPRSet\<close> is the newest of the set.
\<close>

definition MergePRSet_MergeCheck :: "Config \<Rightarrow> State \<Rightarrow> string \<Rightarrow> int \<Rightarrow> error option" where
  "MergePRSet_MergeCheck config state key index =
    (if MergeCheck (Repo config) \<noteq> [] then
       (case CommitsByPRSet state index of
          [] \<Rightarrow> None
        | lastCommit # _ \<Rightarrow>
            (case map_of (MergeCheckCommit (State_cfg config)) key of
               None \<Rightarrow> Some MergeCheckRequired
             | Some checkedCommit \<Rightarrow>
                 if checkedCommit \<noteq> ''SKIP'' \<and> CommitHash (Commit lastCommit) \<noteq> checkedCommit
                 then Some MergeCheckRequired
                 else None))
     else None)"

text \<open>
  \<^verbatim>\<open>MergePRSet\<close>. Its collaborators are parameters: \<open>AsPRSet\<close> parses the index
  (package selector), \<open>readState\<close> is what \<^verbatim>\<open>NewReadState\<close> returned, and
  \<open>mergeAndClose\<close> is the sequence of forge and git calls on the set's commits, oldest
  first, with the error it ends with. \<open>Inl\<close> is the error the process stops with.
\<close>

definition MergePRSet ::
  "Config \<Rightarrow> (string \<Rightarrow> int option) \<Rightarrow> error + State \<Rightarrow> string
    \<Rightarrow> (LocalCommit list \<Rightarrow> error option) \<Rightarrow> string \<Rightarrow> error + unit" where
  "MergePRSet config AsPRSet readState key mergeAndClose setIndex =
    (case AsPRSet setIndex of
       None \<Rightarrow> Inl (UnableToParsePRSetIndex setIndex)
     | Some index \<Rightarrow>
         (case readState of
            Inl err \<Rightarrow> Inl err
          | Inr state \<Rightarrow>
              (case MergePRSet_MergeCheck config state key index of
                 Some err \<Rightarrow> Inl err
               | None \<Rightarrow>
                   let commits = CommitsByPRSet state index in
                   if length commits = 0 then Inl (InvalidIndex setIndex)
                   else (case mergeAndClose (rev commits) of
                           Some err \<Rightarrow> Inl err
                         | None \<Rightarrow> Inr ()))))"

section \<open>Closing pull requests\<close>

text \<open>
  The calls that reach the forge or the remote repository, in the order they are made.
  \<open>CommentPullRequest id body\<close> posts a comment on the pull request \<open>id\<close> and
  \<open>ClosePullRequest id\<close> closes it;
  \<open>EditPullRequest2_closed owner repo number\<close> is the edit that sets the state of
  pull request \<open>number\<close> to \<^verbatim>\<open>closed\<close>; \<open>Push remote refspecs\<close> is a git push.
  Which calls fail is the environment's choice, the parameter \<open>fails\<close>.
\<close>

datatype forge_call =
  CommentPullRequest string string
  | ClosePullRequest string
  | EditPullRequest2_closed string string int
  | Push string "string list"

definition DeleteRemoteBranch ::
  "Config \<Rightarrow> (forge_call \<Rightarrow> bool) \<Rightarrow> string \<Rightarrow> forge_call list \<times> error option" where
  "DeleteRemoteBranch config fails branch =
    (let remoteName = GitHubRemote (Repo config);
         refName = ''refs/heads/'' @ branch;
         call = Push remoteName [CHR '':'' # refName]
     in if fails call then ([call], Some (OtherError (''removing remote branch '' @ branch)))
        else ([call], None))"

definition DeletePullRequest ::
  "Config \<Rightarrow> (forge_call \<Rightarrow> bool) \<Rightarrow> PullRequest \<Rightarrow> forge_call list \<times> error option" where
  "DeletePullRequest config fails pr =
    (let owner = GitHubRepoOwner (Repo config);
         repoName = GitHubRepoName (Repo config);
         call = EditPullRequest2_closed owner repoName (Number pr)
     in if fails call then ([call], Some (OtherError (''deleting pr '' @ show_int (Number pr))))
        else (case DeleteRemoteBranch config fails (FromBranch pr) of
                (calls, err) \<Rightarrow> (call # calls, err)))"

text \<open>
  \<^verbatim>\<open>concurrent.SliceMap\<close> starts the function on every element, each in a goroutine
  of its own, and reports an error if one of them failed. The model keeps the results in
  the order of the slice; of several errors it reports the last in that order (the code
  reports the one received last).
\<close>

definition SliceMap :: "'i list \<Rightarrow> ('i \<Rightarrow> 'o \<times> error option) \<Rightarrow> 'o list \<times> error option" where
  "SliceMap xs fn =
    (let results = map fn xs in
     (map fst results,
      (case filter (\<lambda>e. e \<noteq> None) (map snd results) of
         [] \<Rightarrow> None
       | e # es \<Rightarrow> last (e # es))))"

text \<open>
  The step of \<^verbatim>\<open>UpdatePRSets\<close> that deletes the orphaned pull requests. \<open>orphans\<close>
  is \<^verbatim>\<open>state.OrphanedPRs.ToSlice()\<close>; the result holds the calls made for each.
\<close>

definition UpdatePRSets_DeleteOrphanedPRs ::
  "Config \<Rightarrow> (forge_call \<Rightarrow> bool) \<Rightarrow> pr_heap \<Rightarrow> pr_ref option list
    \<Rightarrow> forge_call list list \<times> error option" where
  "UpdatePRSets_DeleteOrphanedPRs config fails heap orphans =
    SliceMap orphans
      (\<lambda>pr. case pr of
               None \<Rightarrow> ([], None)
             | Some a \<Rightarrow> DeletePullRequest config fails (heap ! a))"

section \<open>Rendering the subject\<close>

text \<open>
  Go reads a string as UTF-8. \<^verbatim>\<open>utf8.DecodeRuneInString\<close> returns the first rune
  and its width in bytes; bytes that are no valid encoding give \<^verbatim>\<open>RuneError\<close>
  (U+FFFD) of width 1.
\<close>

definition RuneError :: nat where "RuneError = 0xFFFD"

definition byte_of :: "char \<Rightarrow> nat" where "byte_of c = of_char c"

definition in_range :: "nat \<Rightarrow> nat \<Rightarrow> char \<Rightarrow> bool" where
  "in_range lo hi c = (lo \<le> byte_of c \<and> byte_of c \<le> hi)"

fun DecodeRuneInString :: "string \<Rightarrow> nat \<times> nat" where
  "DecodeRuneInString [] = (RuneError, 0)"
| "DecodeRuneInString (c0 # s) =
    (let b0 = byte_of c0 in
     if b0 < 0x80 then (b0, 1)
     else if 0xC2 \<le> b0 \<and> b0 \<le> 0xDF then
       (case s of
          c1 # _ \<Rightarrow>
            if in_range 0x80 0xBF c1 then ((b0 mod 32) * 64 + byte_of c1 mod 64, 2)
            else (RuneError, 1)
        | _ \<Rightarrow> (RuneError, 1))
     else if 0xE0 \<le> b0 \<and> b0 \<le> 0xEF then
       (case s of
          c1 # c2 # _ \<Rightarrow>
            if in_range (if b0 = 0xE0 then 0xA0 else 0x80) (if b0 = 0xED then 0x9F else 0xBF) c1
               \<and> in_range 0x80 0xBF c2
            then ((b0 mod 16) * 4096 + (byte_of c1 mod 64) * 64 + byte_of c2 mod 64, 3)
            else (RuneError, 1)
        | _ \<Rightarrow> (RuneError, 1))
     else if 0xF0 \<le> b0 \<and> b0 \<le> 0xF4 then
       (case s of
          c1 # c2 # c3 # _ \<Rightarrow>
            if in_range (if b0 = 0xF0 then 0x90 else 0x80) (if b0 = 0xF4 then 0x8F else 0xBF) c1
               \<and> in_range 0x80 0xBF c2 \<and> in_range 0x80 0xBF c3
            then ((b0 mod 8) * 262144 + (byte_of c1 mod 64) * 4096
                  + (byte_of c2 mod 64) * 64 + byte_of c3 mod 64, 4)
            else (RuneError, 1)
        | _ \<Rightarrow> (RuneError, 1))
     else (RuneError, 1))"

text \<open>The runes of a string, as \<^verbatim>\<open>for _, r := range s\<close> yields them.\<close>

function runes :: "string \<Rightarrow> nat list" where
  "runes s =
    (if s = [] then []
     else fst (DecodeRuneInString s) # runes (drop (snd (DecodeRuneInString s)) s))"
  by pat_completeness auto
termination
  apply (relation "measure length")
   apply simp
  apply (case_tac s)
   apply (auto simp: Let_def split: list.splits)
  done

definition RuneCountInString :: "string \<Rightarrow> nat" where
  "RuneCountInString s = length (runes s)"

text \<open>\<^verbatim>\<open>string(r)\<close>: the UTF-8 encoding of a rune.\<close>

definition char_of_byte :: "nat \<Rightarrow> char" where "char_of_byte n = char_of n"

definition EncodeRune :: "nat \<Rightarrow> string" where
  "EncodeRune r =
    (let r1 = (if r > 0x10FFFF \<or> (0xD800 \<le> r \<and> r \<le> 0xDFFF) then RuneError else r) in
     if r1 < 0x80 then [char_of_byte r1]
     else if r1 < 0x800 then [char_of_byte (0xC0 + r1 div 64), char_of_byte (0x80 + r1 mod 64)]
     else if r1 < 0x10000 then
       [char_of_byte (0xE0 + r1 div 4096), char_of_byte (0x80 + (r1 div 64) mod 64),
        char_of_byte (0x80 + r1 mod 64)]
     else
       [char_of_byte (0xF0 + r1 div 262144), char_of_byte (0x80 + (r1 div 4096) mod 64),
        char_of_byte (0x80 + (r1 div 64) mod 64), char_of_byte (0x80 + r1 mod 64)])"

definition padNumber :: "int \<Rightarrow> string \<Rightarrow> string" where
  "padNumber pad s =
    (let padding = pad - int (length s) in
     if padding > 0 then s @ replicate (nat padding) (CHR '' '') else s)"

fun FormatSubject_loop :: "nat list \<Rightarrow> string \<Rightarrow> nat \<Rightarrow> string" where
  "FormatSubject_loop [] truncated count = truncated"
| "FormatSubject_loop (r # rs) truncated count =
    (let truncated1 = truncated @ EncodeRune r;
         count1 = count + 1
     in if count1 = 46 then truncated1 else FormatSubject_loop rs truncated1 count1)"

definition FormatSubject :: "string \<Rightarrow> string" where
  "FormatSubject subject =
    (let runeCount = RuneCountInString subject in
     if runeCount \<le> 50 then padNumber 50 subject
     else FormatSubject_loop (runes subject) [] 0 @ '' ...'')"

section \<open>The specification's statements\<close>

text \<open>
  The check rollup mapping in the specification's words: \<^verbatim>\<open>SUCCESS\<close> is pass,
  \<^verbatim>\<open>PENDING\<close> and \<^verbatim>\<open>EXPECTED\<close> are pending, \<^verbatim>\<open>ERROR\<close> and \<^verbatim>\<open>FAILURE\<close> are
  fail, and an empty state is pass. It says nothing of other states.
\<close>

definition spec_check_rollup :: "string \<Rightarrow> checkStatus option" where
  "spec_check_rollup st =
    (if st = ''SUCCESS'' then Some CheckStatusPass
     else if st = ''PENDING'' \<or> st = ''EXPECTED'' then Some CheckStatusPending
     else if st = ''ERROR'' \<or> st = ''FAILURE'' then Some CheckStatusFail
     else if st = [] then Some CheckStatusPass
     else None)"

text \<open>
  A core-managed branch in the specification's words: three segments between slashes,
  the first \<^verbatim>\<open>spr\<close>, the third eight lowercase hexadecimal digits.
\<close>

definition spec_core_managed :: "string \<Rightarrow> bool" where
  "spec_core_managed ref =
    (case strings_Split ref (CHR ''/'') of
       [a, m, c] \<Rightarrow> a = ''spr'' \<and> length c = 8 \<and> list_all is_lower_hex c
     | _ \<Rightarrow> False)"

text \<open>
  The gating requirements of a commit's pull request: not WIP, no conflicts and, when
  the configuration requires them, checks passing and review approved. A commit without
  a pull request has none to satisfy.
\<close>

definition gating_ok :: "Config \<Rightarrow> pr_heap \<Rightarrow> LocalCommit \<Rightarrow> bool" where
  "gating_ok config heap cm =
    (case PullRequest cm of
       None \<Rightarrow> True
     | Some a \<Rightarrow>
         \<not> WIP (Commit cm)
         \<and> NoConflicts (MergeStatus (heap ! a))
         \<and> (if RequireChecks (Repo config)
             then ChecksPass (MergeStatus (heap ! a)) = CheckStatusPass else True)
         \<and> (if RequireApproval (Repo config)
             then ReviewApproved (MergeStatus (heap ! a)) else True))"

text \<open>
  The stacked flag in the specification's words, for the commit at position \<open>i\<close> of the
  head-first list: every pull request below it (older, so later in the list) in the same
  PR set satisfies its gating requirements.
\<close>

definition spec_stacked :: "Config \<Rightarrow> pr_heap \<Rightarrow> LocalCommit list \<Rightarrow> nat \<Rightarrow> bool" where
  "spec_stacked config heap commits i =
    list_all (\<lambda>cm. PRIndex cm \<noteq> PRIndex (commits ! i) \<or> PRIndex cm = None
                    \<or> gating_ok config heap cm)
      (drop (Suc i) commits)"

text \<open>
  The closing of an orphan in the specification's words: among the calls made there is
  a comment on the pull request, its closing, and the deletion of its remote branch.
\<close>

definition is_comment_on :: "PullRequest \<Rightarrow> forge_call \<Rightarrow> bool" where
  "is_comment_on pr call =
    (case call of CommentPullRequest i msg \<Rightarrow> i = Id_pr pr | _ \<Rightarrow> False)"

definition is_close_of :: "Config \<Rightarrow> PullRequest \<Rightarrow> forge_call \<Rightarrow> bool" where
  "is_close_of config pr call =
    (call = ClosePullRequest (Id_pr pr)
     \<or> call = EditPullRequest2_closed (GitHubRepoOwner (Repo config))
                (GitHubRepoName (Repo config)) (Number pr))"

definition is_branch_delete_of :: "Config \<Rightarrow> PullRequest \<Rightarrow> forge_call \<Rightarrow> bool" where
  "is_branch_delete_of config pr call =
    (call = Push (GitHubRemote (Repo config)) ['':refs/heads/'' @ FromBranch pr])"

definition spec_orphan_closed :: "Config \<Rightarrow> PullRequest \<Rightarrow> forge_call list \<Rightarrow> bool" where
  "spec_orphan_closed config pr calls =
    (list_ex (is_comment_on pr) calls
     \<and> list_ex (is_close_of config pr) calls
     \<and> list_ex (is_branch_delete_of config pr) calls)"

section \<open>Example inputs\<close>

text \<open>
  The state of \<^verbatim>\<open>TestApplyIndicies\<close>: five commits, the first two in PR set 0, the
  third in PR set 1, the fourth in PR set 2, the fifth without a pull request.
\<close>

definition testingCommit :: "int \<Rightarrow> int option \<Rightarrow> pr_ref option \<Rightarrow> LocalCommit" where
  "testingCommit i prIndex pr =
    \<lparr>Commit = \<lparr>CommitID = [], CommitHash = [], Subject = [], Body = [], WIP = False\<rparr>,
     PullRequest = pr, Index = i, PRIndex = prIndex\<rparr>"

definition testingState :: State where
  "testingState =
    \<lparr>RepositoryId = [],
     LocalCommits =
       [testingCommit 0 (Some 0) (Some 0), testingCommit 1 (Some 0) (Some 1),
        testingCommit 2 (Some 1) (Some 2), testingCommit 3 (Some 2) (Some 3),
        testingCommit 4 None None],
     OrphanedPRs = {}, MutatedPRSets = {}\<rparr>"

text \<open>
  The configuration and commits of \<^verbatim>\<open>TestUpdatePRSetState\<close>: the repository's map
  has three entries, another repository's map one; of five commits four are in a PR set.
\<close>

definition persistConfig :: Config where
  "persistConfig =
    \<lparr>Repo = \<lparr>GitHubRepoOwner = ''owner'', GitHubRepoName = ''repo'', GitHubRemote = ''origin'',
              RequireChecks = False, RequireApproval = False, MergeCheck = []\<rparr>,
     State_cfg = \<lparr>RepoToCommitIdToPRSet =
                    [(''other'', [(''44444444'', 4)]),
                     (''repo'', [(''11111111'', 1), (''22222222'', 0), (''99999999'', 9)])],
                  MergeCheckCommit = []\<rparr>\<rparr>"

definition persistCommit :: "string \<Rightarrow> string \<Rightarrow> int option \<Rightarrow> LocalCommit" where
  "persistCommit commitID hash prIndex =
    \<lparr>Commit = \<lparr>CommitID = commitID, CommitHash = hash, Subject = [], Body = [], WIP = False\<rparr>,
     PullRequest = None, Index = 0, PRIndex = prIndex\<rparr>"

definition persistState :: State where
  "persistState =
    \<lparr>RepositoryId = [],
     LocalCommits =
       [persistCommit ''11111111'' ''h1'' (Some 0), persistCommit ''22222222'' ''h2'' (Some 0),
        persistCommit ''33333333'' ''h3'' (Some 1), persistCommit ''44444444'' ''h4'' (Some 2),
        persistCommit ''55555555'' ''h5'' None],
     OrphanedPRs = {}, MutatedPRSets = {}\<rparr>"

text \<open>
  The same configuration with a merge check configured, before a check has run and
  after one has passed on the commit with hash \<^verbatim>\<open>h1\<close>.
\<close>

definition gateConfig :: "(string, string) gomap \<Rightarrow> Config" where
  "gateConfig checked =
    persistConfig\<lparr>Repo := (Repo persistConfig)\<lparr>MergeCheck := ''/usr/bin/true''\<rparr>,
                  State_cfg := (State_cfg persistConfig)\<lparr>MergeCheckCommit := checked\<rparr>\<rparr>"

definition exampleAsPRSet :: "string \<Rightarrow> int option" where
  "exampleAsPRSet setIndex = (if setIndex = ''s0'' then Some 0 else None)"

text \<open>The environment in which every call to the forge and to the remote succeeds.\<close>

definition noFailure :: "forge_call \<Rightarrow> bool" where
  "noFailure call = False"

text \<open>
  A repository with two commits, each with its pull request on the forge; the older
  commit is WIP and in PR set 0, the newer is in PR set 1.
\<close>

definition stackCommits :: "ObjectCommit list" where
  "stackCommits =
    [\<lparr>Hash = ''h2'', Message = ''Feature 2'' @ [newline, newline] @ ''commit-id:bbbbbbbb'',
      ParentHashes = [''h1'']\<rparr>,
     \<lparr>Hash = ''h1'', Message = ''WIP Feature 1'' @ [newline, newline] @ ''commit-id:aaaaaaaa'',
      ParentHashes = [''h0'']\<rparr>]"

text \<open>The same two commits when the older one is not WIP.\<close>

definition readyCommits :: "ObjectCommit list" where
  "readyCommits =
    [\<lparr>Hash = ''h2'', Message = ''Feature 2'' @ [newline, newline] @ ''commit-id:bbbbbbbb'',
      ParentHashes = [''h1'']\<rparr>,
     \<lparr>Hash = ''h1'', Message = ''Feature 1'' @ [newline, newline] @ ''commit-id:aaaaaaaa'',
      ParentHashes = [''h0'']\<rparr>]"

definition stackNode :: "string \<Rightarrow> int \<Rightarrow> string \<Rightarrow> string \<Rightarrow> PullRequestNode" where
  "stackNode commitID number base headline =
    \<lparr>Id_node = ''PR_'' @ show_int number, DatabaseId_node = 1000 + number, Number_node = number,
     HeadRefName = ''spr/main/'' @ commitID, BaseRefName = base,
     Title_node = headline, Body_node = [],
     StatusCheckRollup_State = ''SUCCESS'', Mergeable = ''MERGEABLE'',
     ReviewDecision = ''APPROVED'',
     Commits_Nodes = [\<lparr>Oid = ''r'' @ show_int number, MessageHeadline = headline,
                       MessageBody = []\<rparr>]\<rparr>"

definition stackResponse :: PullRequestsAndStatusResponse where
  "stackResponse =
    \<lparr>Repository_Id = ''R_1'',
     PullRequests_Nodes =
       [stackNode ''aaaaaaaa'' 1 ''main'' ''WIP Feature 1'',
        stackNode ''bbbbbbbb'' 2 ''main'' ''Feature 2'']\<rparr>"

definition stackConfig :: Config where
  "stackConfig =
    \<lparr>Repo = \<lparr>GitHubRepoOwner = ''owner'', GitHubRepoName = ''repo'', GitHubRemote = ''origin'',
              RequireChecks = True, RequireApproval = True, MergeCheck = []\<rparr>,
     State_cfg = \<lparr>RepoToCommitIdToPRSet =
                    [(''repo'', [(''aaaaaaaa'', 0), (''bbbbbbbb'', 1), (''cccccccc'', 2)])],
                  MergeCheckCommit = []\<rparr>\<rparr>"

text \<open>
  The forge's answer when a third pull request of the tool is open whose commit,
  \<^verbatim>\<open>deadbeef\<close>, is not among the local commits, and the selection that puts both
  local commits into PR set 0.
\<close>

definition goneResponse :: PullRequestsAndStatusResponse where
  "goneResponse =
    \<lparr>Repository_Id = ''R_1'',
     PullRequests_Nodes =
       [stackNode ''aaaaaaaa'' 1 ''main'' ''Feature 1'',
        stackNode ''deadbeef'' 7 ''main'' ''Feature'',
        stackNode ''bbbbbbbb'' 2 ''main'' ''Feature 2'']\<rparr>"

definition goneSelection :: Indices where
  "goneSelection = \<lparr>DestinationPRIndex = Some 0, CommitIndexes = {0, 1}\<rparr>"

section \<open>Properties\<close>

subsection \<open>Check rollup\<close>

text \<open>
  C1, as amended. The three readers of the forge's check rollup differ.
  \<^verbatim>\<open>ComputeMergeStatus\<close> (the PR-set state assembly) agrees with the specification's
  table wherever the table speaks: \<^verbatim>\<open>SUCCESS\<close> and the empty state are pass,
  \<^verbatim>\<open>PENDING\<close> and \<^verbatim>\<open>EXPECTED\<close> are pending, \<^verbatim>\<open>ERROR\<close> and \<^verbatim>\<open>FAILURE\<close> are fail;
  any other state leaves the flag unknown. The classic reader (\<^verbatim>\<open>matchPullRequestStack\<close>)
  agrees with the table except on \<^verbatim>\<open>EXPECTED\<close>, which it maps to fail, as it does every
  state the table does not list. The QL reader (\<^verbatim>\<open>ComputeCheckStatus\<close>) agrees with the
  table on \<^verbatim>\<open>SUCCESS\<close>, \<^verbatim>\<open>PENDING\<close>, \<^verbatim>\<open>ERROR\<close> and \<^verbatim>\<open>FAILURE\<close>, and maps every other
  state, \<^verbatim>\<open>EXPECTED\<close> and the empty state included, and an absent rollup to unknown.
\<close>

theorem C1_check_rollup:
  "ChecksPass (ComputeMergeStatus pr) =
     (case spec_check_rollup (StatusCheckRollup_State pr) of
        Some c \<Rightarrow> c | None \<Rightarrow> CheckStatusUnknown)
   \<and> matchPullRequestStack_checkStatus st =
     (if st = ''EXPECTED'' then CheckStatusFail
      else case spec_check_rollup st of Some c \<Rightarrow> c | None \<Rightarrow> CheckStatusFail)
   \<and> ChecksPass (ComputeCheckStatus (Some st # nodes) prms) =
     (if st = ''EXPECTED'' \<or> st = [] then CheckStatusUnknown
      else case spec_check_rollup st of Some c \<Rightarrow> c | None \<Rightarrow> CheckStatusUnknown)
   \<and> ChecksPass (ComputeCheckStatus (None # nodes) prms) = CheckStatusUnknown
   \<and> ChecksPass (ComputeCheckStatus [] prms) = CheckStatusUnknown"
proof -
  have a: "ChecksPass (ComputeMergeStatus pr) =
     (case spec_check_rollup (StatusCheckRollup_State pr) of
        Some c \<Rightarrow> c | None \<Rightarrow> CheckStatusUnknown)"
    by (simp add: ComputeMergeStatus_def spec_check_rollup_def Let_def StatusStateError_def
        StatusStateFailure_def StatusStateExpected_def StatusStatePending_def StatusStateSuccess_def)
  have b: "matchPullRequestStack_checkStatus st =
     (if st = ''EXPECTED'' then CheckStatusFail
      else case spec_check_rollup st of Some c \<Rightarrow> c | None \<Rightarrow> CheckStatusFail)"
    by (simp add: matchPullRequestStack_checkStatus_def spec_check_rollup_def)
  have c: "ChecksPass (ComputeCheckStatus (Some st # nodes) prms) =
     (if st = ''EXPECTED'' \<or> st = [] then CheckStatusUnknown
      else case spec_check_rollup st of Some c \<Rightarrow> c | None \<Rightarrow> CheckStatusUnknown)"
    by (simp add: ComputeCheckStatus_def spec_check_rollup_def)
  have d: "ChecksPass (ComputeCheckStatus (None # nodes) prms) = CheckStatusUnknown"
    "ChecksPass (ComputeCheckStatus [] prms) = CheckStatusUnknown"
    by (simp_all add: ComputeCheckStatus_def)
  from a b c d show ?thesis by blast
qed

text \<open>
  C1 as stated fails: the specification maps \<^verbatim>\<open>EXPECTED\<close> to pending, the classic
  reader maps it to fail.
\<close>

theorem C1_counterexample:
  "spec_check_rollup ''EXPECTED'' = Some CheckStatusPending
   \<and> matchPullRequestStack_checkStatus ''EXPECTED'' = CheckStatusFail"
  by (simp add: spec_check_rollup_def matchPullRequestStack_checkStatus_def)

subsection \<open>Branch names\<close>

lemma strings_Split_not_Nil: "strings_Split s sep \<noteq> []"
  by (induction s) (auto split: list.splits)

lemma strings_Split_no_sep: "sep \<notin> set a \<Longrightarrow> strings_Split a sep = [a]"
  by (induction a) auto

lemma strings_Split_append:
  "sep \<notin> set a \<Longrightarrow> strings_Split (a @ sep # rest) sep = a # strings_Split rest sep"
  by (induction a) auto

lemma strings_Split_segments: "seg \<in> set (strings_Split s sep) \<Longrightarrow> sep \<notin> set seg"
  by (induction s arbitrary: seg) (auto split: list.splits if_splits)

lemma strings_Split_join:
  "concat (map ((#) sep) (strings_Split s sep)) = sep # s"
  by (induction s) (auto split: list.splits simp: strings_Split_not_Nil)

lemma strings_Split_three:
  "strings_Split s sep = [a, m, c] \<longleftrightarrow>
     s = a @ sep # m @ sep # c \<and> sep \<notin> set a \<and> sep \<notin> set m \<and> sep \<notin> set c"
proof
  assume h: "strings_Split s sep = [a, m, c]"
  have "concat (map ((#) sep) [a, m, c]) = sep # s"
    using strings_Split_join [of sep s] h by simp
  moreover have "sep \<notin> set a" "sep \<notin> set m" "sep \<notin> set c"
    using strings_Split_segments [of _ s sep] h by auto
  ultimately show "s = a @ sep # m @ sep # c \<and> sep \<notin> set a \<and> sep \<notin> set m \<and> sep \<notin> set c"
    by simp
next
  assume "s = a @ sep # m @ sep # c \<and> sep \<notin> set a \<and> sep \<notin> set m \<and> sep \<notin> set c"
  then show "strings_Split s sep = [a, m, c]"
    by (simp add: strings_Split_append strings_Split_no_sep)
qed

lemma length_three: "length xs = 3 \<Longrightarrow> \<exists>a m c. xs = [a, m, c]"
  by (simp add: numeral_3_eq_3 length_Suc_conv) blast

text \<open>
  C4, as amended. A head ref name yields the commit-id \<open>c\<close> exactly when it is
  \<^verbatim>\<open>spr/\<close>, a middle segment without a slash, a slash, and \<open>c\<close>, where \<open>c\<close> is
  eight bytes long and has no slash; every other ref name yields the empty string, and
  its pull request is skipped. The eight bytes need not be hexadecimal digits.
\<close>

theorem C4_CommitIdFromBranch:
  "(CommitIdFromBranch ref = c \<and> c \<noteq> []) \<longleftrightarrow>
     (\<exists>m. ref = ''spr/'' @ m @ ''/'' @ c \<and> CHR ''/'' \<notin> set m \<and> CHR ''/'' \<notin> set c
          \<and> length c = 8)"
proof
  assume h: "CommitIdFromBranch ref = c \<and> c \<noteq> []"
  then have l3: "length (strings_Split ref (CHR ''/'')) = 3"
    by (auto simp: CommitIdFromBranch_def Let_def split: if_splits)
  then obtain a m c' where segs: "strings_Split ref (CHR ''/'') = [a, m, c']"
    using length_three by blast
  from h segs have "a = ''spr'' \<and> c' = c \<and> length c = 8"
    unfolding CommitIdFromBranch_def Let_def by (auto split: if_splits)
  with segs have "strings_Split ref (CHR ''/'') = [''spr'', m, c]" "length c = 8"
    by simp_all
  then show "\<exists>m. ref = ''spr/'' @ m @ ''/'' @ c \<and> CHR ''/'' \<notin> set m \<and> CHR ''/'' \<notin> set c
          \<and> length c = 8"
    using strings_Split_three [of ref "CHR ''/''" "''spr''" m c] by auto
next
  assume "\<exists>m. ref = ''spr/'' @ m @ ''/'' @ c \<and> CHR ''/'' \<notin> set m \<and> CHR ''/'' \<notin> set c
          \<and> length c = 8"
  then obtain m where m: "ref = ''spr'' @ CHR ''/'' # m @ CHR ''/'' # c"
      "CHR ''/'' \<notin> set m" "CHR ''/'' \<notin> set c" "length c = 8"
    by auto
  then have "strings_Split ref (CHR ''/'') = [''spr'', m, c]"
    using strings_Split_three [of ref "CHR ''/''" "''spr''" m c] by simp
  with m(4) show "CommitIdFromBranch ref = c \<and> c \<noteq> []"
    unfolding CommitIdFromBranch_def Let_def by auto
qed

text \<open>
  C4 as stated fails: \<^verbatim>\<open>spr/main/ZZZZZZZZ\<close> yields the commit-id \<^verbatim>\<open>ZZZZZZZZ\<close>, and
  its third segment is not made of hexadecimal digits.
\<close>

theorem C4_counterexample:
  "CommitIdFromBranch ''spr/main/ZZZZZZZZ'' = ''ZZZZZZZZ''
   \<and> \<not> spec_core_managed ''spr/main/ZZZZZZZZ''"
  by (simp add: CommitIdFromBranch_def spec_core_managed_def is_lower_hex_def)

subsection \<open>Applying a selection\<close>

lemma int64_wrap_small: "0 \<le> p \<Longrightarrow> p < 2 ^ 63 - 1 \<Longrightarrow> int64_wrap (p + 1) = p + 1"
  by (simp add: int64_wrap_def)

lemma Max_insert_insert:
  "finite S \<Longrightarrow> Max (insert a (insert b S)) = Max (insert (max a b) (S :: int set))"
  by (cases "S = {}") (simp_all add: max.assoc)

lemma finite_these_PRIndex: "finite (Option.these (PRIndex ` set cs))"
  by (simp add: Option.these_def)

lemma nextDestinationPRIndex_max:
  assumes "\<forall>c\<in>set cs. \<forall>p. PRIndex c = Some p \<longrightarrow> 0 \<le> p \<and> p < 2 ^ 63 - 1"
  shows "nextDestinationPRIndex cs n =
           Max (insert n ((\<lambda>p. p + 1) ` Option.these (PRIndex ` set cs)))"
  using assms
proof (induction cs arbitrary: n)
  case Nil
  then show ?case by simp
next
  case (Cons cm rest)
  have fin: "finite ((\<lambda>p. p + 1) ` Option.these (PRIndex ` set rest))"
    by (simp add: finite_these_PRIndex)
  have ih: "\<And>m. nextDestinationPRIndex rest m =
         Max (insert m ((\<lambda>p. p + 1) ` Option.these (PRIndex ` set rest)))"
    using Cons by simp
  show ?case
  proof (cases "PRIndex cm")
    case None
    with ih show ?thesis by simp
  next
    case (Some p)
    with Cons.prems have w: "int64_wrap (p + 1) = p + 1"
      by (simp add: int64_wrap_small)
    have "nextDestinationPRIndex (cm # rest) n = nextDestinationPRIndex rest (max n (p + 1))"
    proof (cases "p \<ge> n")
      case True
      then have "max n (p + 1) = p + 1" by simp
      with Some w True show ?thesis by simp
    next
      case False
      then have "max n (p + 1) = n" by simp
      with Some False show ?thesis by simp
    qed
    also have "\<dots> = Max (insert (max n (p + 1)) ((\<lambda>p. p + 1) ` Option.these (PRIndex ` set rest)))"
      by (rule ih)
    also have "\<dots> = Max (insert n (insert (p + 1) ((\<lambda>p. p + 1) ` Option.these (PRIndex ` set rest))))"
      using Max_insert_insert [OF fin, of n "p + 1"] by simp
    finally show ?thesis using Some by simp
  qed
qed

lemma existingPRSets_eq:
  "existingPRSets cs acc = acc \<union> Option.these (PRIndex ` set cs)"
  by (induction cs arbitrary: acc) (auto split: option.splits)

lemma these_PRIndex_iff: "k \<in> Option.these (PRIndex ` set cs) \<longleftrightarrow> (\<exists>c\<in>set cs. PRIndex c = Some k)"
  by (auto simp: Option.in_these_eq image_iff) (metis)

text \<open>
  C3. A selection with no destination and no commit leaves the state, and the
  selection, as they were. A selection with no destination and at least one commit gets
  as destination one more than the largest PR-set index among the local commits, and 0
  when no commit has one. PR-set indices are small non-negative integers (the data
  model); the bound is that of Go's \<^verbatim>\<open>int\<close>, where the sum would wrap.
\<close>

theorem C3_ApplyIndices_destination:
  assumes "\<forall>c\<in>set (LocalCommits s). \<forall>p. PRIndex c = Some p \<longrightarrow> 0 \<le> p \<and> p < 2 ^ 63 - 1"
  shows "ApplyIndices s \<lparr>DestinationPRIndex = None, CommitIndexes = {}\<rparr>
           = (s, \<lparr>DestinationPRIndex = None, CommitIndexes = {}\<rparr>)
         \<and> (commitIndexes \<noteq> {} \<longrightarrow>
             DestinationPRIndex
               (snd (ApplyIndices s \<lparr>DestinationPRIndex = None, CommitIndexes = commitIndexes\<rparr>))
             = Some (if Option.these (PRIndex ` set (LocalCommits s)) = {} then 0
                     else Max (Option.these (PRIndex ` set (LocalCommits s))) + 1))"
proof -
  let ?S = "Option.these (PRIndex ` set (LocalCommits s))"
  have fin: "finite ?S" by (rule finite_these_PRIndex)
  have nn: "\<forall>p\<in>?S. 0 \<le> p" using assms by (auto simp: these_PRIndex_iff)
  have next_eq: "nextDestinationPRIndex (LocalCommits s) 0 = (if ?S = {} then 0 else Max ?S + 1)"
  proof (cases "?S = {}")
    case True
    then show ?thesis using nextDestinationPRIndex_max [OF assms, of 0] by simp
  next
    case False
    have m: "Max ((\<lambda>p. p + 1) ` ?S) = Max ?S + 1"
      using fin False by (simp add: mono_Max_commute [symmetric] mono_def)
    have "0 \<le> Max ?S" using nn fin False by (meson Max_in)
    then have "Max (insert 0 ((\<lambda>p. p + 1) ` ?S)) = Max ?S + 1"
      using fin False m by simp
    then show ?thesis using nextDestinationPRIndex_max [OF assms, of 0] False by simp
  qed
  have a: "ApplyIndices s \<lparr>DestinationPRIndex = None, CommitIndexes = {}\<rparr>
           = (s, \<lparr>DestinationPRIndex = None, CommitIndexes = {}\<rparr>)"
    by (simp add: ApplyIndices_def)
  have b: "commitIndexes \<noteq> {} \<longrightarrow>
             DestinationPRIndex
               (snd (ApplyIndices s \<lparr>DestinationPRIndex = None, CommitIndexes = commitIndexes\<rparr>))
             = Some (nextDestinationPRIndex (LocalCommits s) 0)"
    by (simp add: ApplyIndices_def Let_def split: prod.splits)
  from a b next_eq show ?thesis by simp
qed

text \<open>
  C8. After a selection is applied, every PR-set index in the mutated PR sets has a
  member among the local commits. The selection with no destination and no commit
  returns before anything is done, so there the state must already be so (the state the
  assembly makes has no mutated PR set).
\<close>

theorem C8_mutated_sets_have_members:
  assumes "DestinationPRIndex indices = None \<and> CommitIndexes indices = {} \<longrightarrow>
             (\<forall>k\<in>MutatedPRSets s. \<exists>c\<in>set (LocalCommits s). PRIndex c = Some k)"
  shows "\<forall>k\<in>MutatedPRSets (fst (ApplyIndices s indices)).
           \<exists>c\<in>set (LocalCommits (fst (ApplyIndices s indices))). PRIndex c = Some k"
proof (cases "DestinationPRIndex indices = None \<and> CommitIndexes indices = {}")
  case True
  then show ?thesis using assms by (simp add: ApplyIndices_def)
next
  case False
  then show ?thesis
    by (auto simp: ApplyIndices_def Let_def existingPRSets_eq these_PRIndex_iff split: prod.splits)
qed


text \<open>C3 on the state of the repository's test: the next free index is 3.\<close>

theorem C3_witness:
  "ApplyIndices testingState \<lparr>DestinationPRIndex = None, CommitIndexes = {}\<rparr>
     = (testingState, \<lparr>DestinationPRIndex = None, CommitIndexes = {}\<rparr>)
   \<and> DestinationPRIndex
        (snd (ApplyIndices testingState \<lparr>DestinationPRIndex = None, CommitIndexes = {4}\<rparr>))
      = Some 3"
proof -
  have h: "\<forall>c\<in>set (LocalCommits testingState). \<forall>p. PRIndex c = Some p \<longrightarrow> 0 \<le> p \<and> p < 2 ^ 63 - 1"
    by (simp add: testingState_def testingCommit_def)
  have S: "Option.these (PRIndex ` set (LocalCommits testingState)) = {0, 1, 2}"
    by (simp add: testingState_def testingCommit_def)
  show ?thesis
    using C3_ApplyIndices_destination [OF h, of "{4}"] by (simp add: S)
qed

text \<open>
  C8 on the state of the repository's test, moving the first commit into a new PR
  set: sets 0 and 3 are mutated and both have members.
\<close>

theorem C8_witness:
  "MutatedPRSets (fst (ApplyIndices testingState \<lparr>DestinationPRIndex = None, CommitIndexes = {0}\<rparr>))
     = {0, 3}
   \<and> (\<exists>c\<in>set (LocalCommits (fst (ApplyIndices testingState
                  \<lparr>DestinationPRIndex = None, CommitIndexes = {0}\<rparr>))). PRIndex c = Some 0)
   \<and> (\<exists>c\<in>set (LocalCommits (fst (ApplyIndices testingState
                  \<lparr>DestinationPRIndex = None, CommitIndexes = {0}\<rparr>))). PRIndex c = Some 3)"
proof -
  let ?ind = "\<lparr>DestinationPRIndex = None, CommitIndexes = {0::int}\<rparr>"
  have h: "DestinationPRIndex ?ind = None \<and> CommitIndexes ?ind = {} \<longrightarrow>
             (\<forall>k\<in>MutatedPRSets testingState. \<exists>c\<in>set (LocalCommits testingState). PRIndex c = Some k)"
    by simp
  have m: "MutatedPRSets (fst (ApplyIndices testingState ?ind)) = {0, 3}"
    by (simp add: ApplyIndices_def Let_def testingState_def testingCommit_def
        ApplyIndices_step_def int64_wrap_def)
  show ?thesis
    using C8_mutated_sets_have_members [OF h] m by simp
qed

subsection \<open>The persisted PR-set map\<close>

lemma prSetMap_of_set_prSetMap: "prSetMap_of (set_prSetMap config m) = m"
  by (simp add: prSetMap_of_def set_prSetMap_def update_conv')

lemma UpdatePRSetState_loop_dom:
  "dom (map_of (UpdatePRSetState_loop cs m)) =
     dom (map_of m) \<union> {CommitID (Commit c) | c. c \<in> set cs \<and> PRIndex c \<noteq> None}"
  by (induction cs arbitrary: m) (auto split: option.splits simp: update_conv')

lemma UpdatePRSetState_loop_value:
  "map_of (UpdatePRSetState_loop cs m) k = Some p \<Longrightarrow>
     map_of m k = Some p \<or> (\<exists>c\<in>set cs. CommitID (Commit c) = k \<and> PRIndex c = Some p)"
proof (induction cs arbitrary: m)
  case Nil
  then show ?case by simp
next
  case (Cons a cs)
  show ?case
  proof (cases "PRIndex a")
    case None
    with Cons show ?thesis by auto
  next
    case (Some q)
    with Cons.prems
    have "map_of (UpdatePRSetState_loop cs (AList.update (CommitID (Commit a)) q m)) k = Some p"
      by simp
    from Cons.IH [OF this]
    have "map_of (AList.update (CommitID (Commit a)) q m) k = Some p
          \<or> (\<exists>c\<in>set cs. CommitID (Commit c) = k \<and> PRIndex c = Some p)" .
    with Some show ?thesis by (auto simp: update_conv' split: if_splits)
  qed
qed

lemma UpdatePRSetState_loop_other:
  "k \<notin> (\<lambda>c. CommitID (Commit c)) ` set cs \<Longrightarrow>
     map_of (UpdatePRSetState_loop cs m) k = map_of m k"
  by (induction cs arbitrary: m) (auto split: option.splits simp: update_conv')

lemma UpdatePRSetState_loop_member:
  "distinct (map (\<lambda>c. CommitID (Commit c)) cs) \<Longrightarrow> c \<in> set cs \<Longrightarrow> PRIndex c = Some p \<Longrightarrow>
     map_of (UpdatePRSetState_loop cs m) (CommitID (Commit c)) = Some p"
proof (induction cs arbitrary: m)
  case Nil
  then show ?case by simp
next
  case (Cons x xs)
  show ?case
  proof (cases "c = x")
    case True
    with Cons.prems have "CommitID (Commit c) \<notin> (\<lambda>c. CommitID (Commit c)) ` set xs"
      by auto
    with True Cons.prems(3) show ?thesis
      by (simp add: UpdatePRSetState_loop_other update_conv')
  next
    case False
    with Cons show ?thesis by (auto split: option.splits)
  qed
qed

lemma UpdatePRSetState_loop_distinct:
  "distinct (map fst m) \<Longrightarrow> distinct (map fst (UpdatePRSetState_loop cs m))"
  by (induction cs arbitrary: m) (auto split: option.splits simp: distinct_update)

text \<open>
  C5. After \<^verbatim>\<open>UpdatePRSetState\<close> the repository's persisted map has as keys exactly
  the commit-ids of the local commits that carry a PR-set index; every value it holds
  is the PR-set index of a local commit with that commit-id; and, commit-ids being
  unique among the local commits, every such commit's id maps to that commit's index.
\<close>

theorem C5_UpdatePRSetState:
  "dom (map_of (prSetMap_of (UpdatePRSetState s config))) =
     {CommitID (Commit c) | c. c \<in> set (LocalCommits s) \<and> PRIndex c \<noteq> None}
   \<and> (\<forall>k p. map_of (prSetMap_of (UpdatePRSetState s config)) k = Some p \<longrightarrow>
         (\<exists>c\<in>set (LocalCommits s). CommitID (Commit c) = k \<and> PRIndex c = Some p))
   \<and> (distinct (map (\<lambda>c. CommitID (Commit c)) (LocalCommits s)) \<longrightarrow>
         (\<forall>c\<in>set (LocalCommits s). \<forall>p. PRIndex c = Some p \<longrightarrow>
            map_of (prSetMap_of (UpdatePRSetState s config)) (CommitID (Commit c)) = Some p))"
proof -
  have m: "prSetMap_of (UpdatePRSetState s config) = UpdatePRSetState_loop (LocalCommits s) []"
    by (simp add: UpdatePRSetState_def prSetMap_of_set_prSetMap)
  have a: "dom (map_of (UpdatePRSetState_loop (LocalCommits s) [])) =
     {CommitID (Commit c) | c. c \<in> set (LocalCommits s) \<and> PRIndex c \<noteq> None}"
    by (simp add: UpdatePRSetState_loop_dom)
  have b: "\<forall>k p. map_of (UpdatePRSetState_loop (LocalCommits s) []) k = Some p \<longrightarrow>
         (\<exists>c\<in>set (LocalCommits s). CommitID (Commit c) = k \<and> PRIndex c = Some p)"
    using UpdatePRSetState_loop_value [of "LocalCommits s" "[]"] by auto
  have c: "distinct (map (\<lambda>c. CommitID (Commit c)) (LocalCommits s)) \<longrightarrow>
         (\<forall>c\<in>set (LocalCommits s). \<forall>p. PRIndex c = Some p \<longrightarrow>
            map_of (UpdatePRSetState_loop (LocalCommits s) []) (CommitID (Commit c)) = Some p)"
    using UpdatePRSetState_loop_member by blast
  from a b c show ?thesis unfolding m by blast
qed

text \<open>
  C5 on the input of \<^verbatim>\<open>TestUpdatePRSetState\<close>: the four commits in a PR set are
  stored with their index, the commit without one and the stale entry are not.
\<close>

theorem C5_witness:
  "prSetMap_of (UpdatePRSetState persistState persistConfig) =
     [(''11111111'', 0), (''22222222'', 0), (''33333333'', 1), (''44444444'', 2)]
   \<and> map_of (prSetMap_of (UpdatePRSetState persistState persistConfig)) ''11111111'' = Some 0
   \<and> map_of (prSetMap_of (UpdatePRSetState persistState persistConfig)) ''44444444'' = Some 2"
proof -
  let ?m = "map_of (prSetMap_of (UpdatePRSetState persistState persistConfig))"
  have d: "distinct (map (\<lambda>c. CommitID (Commit c)) (LocalCommits persistState))"
    by (simp add: persistState_def persistCommit_def)
  from C5_UpdatePRSetState [of persistState persistConfig] d
  have v: "\<forall>c\<in>set (LocalCommits persistState). \<forall>p. PRIndex c = Some p \<longrightarrow>
            ?m (CommitID (Commit c)) = Some p"
    by blast
  have e: "prSetMap_of (UpdatePRSetState persistState persistConfig) =
     [(''11111111'', 0), (''22222222'', 0), (''33333333'', 1), (''44444444'', 2)]"
    by code_simp
  from v e show ?thesis
    by (simp add: persistState_def persistCommit_def)
qed

subsection \<open>Garbage collection of the persisted map\<close>

lemma map_of_filter_key:
  "map_of (filter (\<lambda>(k, v). P k) xs) k = (if P k then map_of xs k else None)"
  by (induction xs) auto

lemma UpdateRepoToCommitIdToPrSet_loop_entries:
  "gc_entries (UpdateRepoToCommitIdToPrSet_loop prMap cs gc) = gc_entries gc"
  by (induction cs arbitrary: gc) (auto simp: Lookup_def split: option.splits)

lemma UpdateRepoToCommitIdToPrSet_loop_accessed:
  "gc_accessed (UpdateRepoToCommitIdToPrSet_loop prMap cs gc) =
     gc_accessed gc \<union> {CommitID (Commit c) | c. c \<in> set cs \<and> map_of prMap (CommitID (Commit c)) \<noteq> None}"
  by (induction cs arbitrary: gc) (auto simp: Lookup_def split: option.splits)

lemma UpdateRepoToCommitIdToPrSet_map:
  "map_of (prSetMap_of (UpdateRepoToCommitIdToPrSet config gitCommits prMap)) k =
     (if k \<in> (\<lambda>c. CommitID (Commit c)) ` set gitCommits \<and> map_of prMap k \<noteq> None
      then map_of (prSetMap_of config) k else None)"
  by (auto simp: UpdateRepoToCommitIdToPrSet_def prSetMap_of_set_prSetMap PurgeUnaccessed_def
      UpdateRepoToCommitIdToPrSet_loop_entries UpdateRepoToCommitIdToPrSet_loop_accessed
      NewGC_def map_of_filter_key)

lemma GenerateCommits_loop_ids:
  "map (\<lambda>c. CommitID (Commit c)) (GenerateCommits_loop n i cs) = map (\<lambda>c. CommitId (Message c)) cs"
  by (induction cs arbitrary: i) auto

lemma set_HeadFirst: "set (HeadFirst cs) = set cs"
  by (auto simp: HeadFirst_def split: list.splits)

lemma GenerateCommits_ids:
  "(\<lambda>c. CommitID (Commit c)) ` set (GenerateCommits commits) = (\<lambda>c. CommitId (Message c)) ` set commits"
proof -
  have "set (map (\<lambda>c. CommitID (Commit c)) (GenerateCommits commits))
        = set (map (\<lambda>c. CommitId (Message c)) (HeadFirst commits))"
    by (simp only: GenerateCommits_def Let_def GenerateCommits_loop_ids)
  then show ?thesis by (simp add: set_HeadFirst)
qed

lemma GeneratePullRequestMap_loop_dom:
  "dom (map_of (fst (GeneratePullRequestMap_loop nodes prMap heap))) =
     dom (map_of prMap) \<union> {k. k \<noteq> [] \<and> (\<exists>n\<in>set nodes. CommitIdFromBranch (HeadRefName n) = k)}"
  by (induction nodes arbitrary: prMap heap) (auto simp: Let_def update_conv')

text \<open>
  C10. After state assembly the repository's persisted map holds under a commit-id
  what it held before exactly when that commit-id is the commit-id of a local commit and
  some pull request of the forge's answer has a head ref name that parses to it; every
  other entry is gone. So the entry of a commit that is still local but has no pull
  request any more is dropped.
\<close>

theorem C10_persisted_entries_after_assembly:
  "map_of (prSetMap_of (fst (snd (NewState config prAndStatus commits)))) k =
     (if (\<exists>c\<in>set commits. CommitId (Message c) = k)
         \<and> (\<exists>n\<in>set (PullRequests_Nodes prAndStatus). CommitIdFromBranch (HeadRefName n) = k \<and> k \<noteq> [])
      then map_of (prSetMap_of config) k else None)"
proof -
  obtain prMap heap where g: "GeneratePullRequestMap prAndStatus = (prMap, heap)"
    by (cases "GeneratePullRequestMap prAndStatus")
  let ?gitCommits = "map (\<lambda>gitCommit. gitCommit\<lparr>PullRequest := map_of prMap (CommitID (Commit gitCommit))\<rparr>)
                        (GenerateCommits commits)"
  have cfg: "fst (snd (NewState config prAndStatus commits))
             = UpdateRepoToCommitIdToPrSet config ?gitCommits prMap"
    by (simp add: NewState_def g Let_def)
  have ids: "(\<lambda>c. CommitID (Commit c)) ` set ?gitCommits = (\<lambda>c. CommitId (Message c)) ` set commits"
    using GenerateCommits_ids [of commits] by (simp add: image_image)
  have d: "dom (map_of prMap) = {k. k \<noteq> [] \<and> (\<exists>n\<in>set (PullRequests_Nodes prAndStatus).
                                      CommitIdFromBranch (HeadRefName n) = k)}"
    using GeneratePullRequestMap_loop_dom [of "PullRequests_Nodes prAndStatus" "[]" "[]"] g
    by (simp add: GeneratePullRequestMap_def)
  have pm: "map_of prMap k \<noteq> None \<longleftrightarrow>
        (\<exists>n\<in>set (PullRequests_Nodes prAndStatus). CommitIdFromBranch (HeadRefName n) = k \<and> k \<noteq> [])"
    using d by (auto simp: dom_def)
  have im: "k \<in> (\<lambda>c. CommitId (Message c)) ` set commits \<longleftrightarrow> (\<exists>c\<in>set commits. CommitId (Message c) = k)"
    by auto
  show ?thesis
    unfolding cfg UpdateRepoToCommitIdToPrSet_map ids im pm by simp
qed

subsection \<open>The merge check\<close>

text \<open>
  C6. With a merge check configured and a non-empty PR set, \<^verbatim>\<open>MergePRSet\<close> goes on to
  the merge only when a checked commit hash is recorded and is \<^verbatim>\<open>SKIP\<close> or the hash
  of the set's newest commit; otherwise it stops with the merge-check-required error, in
  particular when nothing was recorded.
\<close>

theorem C6_merge_check_gate:
  assumes "AsPRSet setIndex = Some index"
    and "readState = Inr state"
    and "MergeCheck (Repo config) \<noteq> []"
    and "CommitsByPRSet state index \<noteq> []"
  shows "(if \<exists>checked. map_of (MergeCheckCommit (State_cfg config)) key = Some checked
                \<and> (checked = ''SKIP''
                    \<or> checked = CommitHash (Commit (hd (CommitsByPRSet state index))))
          then MergePRSet config AsPRSet readState key mergeAndClose setIndex
                 = (case mergeAndClose (rev (CommitsByPRSet state index)) of
                      Some err \<Rightarrow> Inl err | None \<Rightarrow> Inr ())
          else MergePRSet config AsPRSet readState key mergeAndClose setIndex
                 = Inl MergeCheckRequired)
         \<and> (map_of (MergeCheckCommit (State_cfg config)) key = None \<longrightarrow>
              MergePRSet config AsPRSet readState key mergeAndClose setIndex
                 = Inl MergeCheckRequired)"
  using assms
  by (auto simp: MergePRSet_def MergePRSet_MergeCheck_def Let_def
      split: list.splits option.splits)

text \<open>
  C6 on PR set 0 of the example state, whose newest commit has hash \<^verbatim>\<open>h1\<close>: nothing
  recorded and another hash recorded stop the merge, \<^verbatim>\<open>h1\<close> and \<^verbatim>\<open>SKIP\<close> let it pass.
\<close>

theorem C6_witness:
  "MergePRSet (gateConfig []) exampleAsPRSet (Inr persistState) ''key'' (\<lambda>commits. None) ''s0''
     = Inl MergeCheckRequired
   \<and> MergePRSet (gateConfig [(''key'', ''h2'')]) exampleAsPRSet (Inr persistState) ''key''
        (\<lambda>commits. None) ''s0''
     = Inl MergeCheckRequired
   \<and> MergePRSet (gateConfig [(''key'', ''h1'')]) exampleAsPRSet (Inr persistState) ''key''
        (\<lambda>commits. None) ''s0''
     = Inr ()
   \<and> MergePRSet (gateConfig [(''key'', ''SKIP'')]) exampleAsPRSet (Inr persistState) ''key''
        (\<lambda>commits. None) ''s0''
     = Inr ()"
proof -
  have a: "exampleAsPRSet ''s0'' = Some 0" by (simp add: exampleAsPRSet_def)
  have c: "\<And>m. MergeCheck (Repo (gateConfig m)) \<noteq> []" by (simp add: gateConfig_def)
  have cs: "CommitsByPRSet persistState 0 =
      [persistCommit ''11111111'' ''h1'' (Some 0), persistCommit ''22222222'' ''h2'' (Some 0)]"
    by (simp add: CommitsByPRSet_def persistState_def persistCommit_def)
  then have n: "CommitsByPRSet persistState 0 \<noteq> []" by simp
  have k: "\<And>m. MergeCheckCommit (State_cfg (gateConfig m)) = m" by (simp add: gateConfig_def)
  have r: "Inr persistState = (Inr persistState :: error + State)" by simp
  note g = C6_merge_check_gate [where AsPRSet = exampleAsPRSet and setIndex = "''s0''"
      and index = 0 and readState = "Inr persistState" and state = persistState
      and key = "''key''" and mergeAndClose = "\<lambda>commits. None", OF a r c n]
  show ?thesis
    using g [of "[]"] g [of "[(''key'', ''h2'')]"] g [of "[(''key'', ''h1'')]"]
      g [of "[(''key'', ''SKIP'')]"]
    by (simp add: k cs persistCommit_def)
qed

subsection \<open>Rendering the subject\<close>

text \<open>
  C9 fails on a subject that is not ASCII: \<^verbatim>\<open>FormatSubject\<close> counts and cuts runes, but
  \<^verbatim>\<open>padNumber\<close> pads by the length in bytes. The subject of the one rune U+00E9 (two
  bytes) is padded with 48 spaces to 50 bytes, which are 49 runes.
\<close>

theorem C9_FormatSubject_two_byte_rune:
  "FormatSubject [CHR 0xC3, CHR 0xA9] = [CHR 0xC3, CHR 0xA9] @ replicate 48 (CHR '' '')
   \<and> RuneCountInString [CHR 0xC3, CHR 0xA9] = 1
   \<and> RuneCountInString (FormatSubject [CHR 0xC3, CHR 0xA9]) = 49"
  by code_simp

subsection \<open>The stacked flag\<close>

lemma MergeStatus_set_Stacked:
  "NoConflicts (MergeStatus (set_Stacked pr)) = NoConflicts (MergeStatus pr)"
  "ChecksPass (MergeStatus (set_Stacked pr)) = ChecksPass (MergeStatus pr)"
  "ReviewApproved (MergeStatus (set_Stacked pr)) = ReviewApproved (MergeStatus pr)"
  "Stacked (MergeStatus (set_Stacked pr))"
  by (simp_all add: set_Stacked_def)

lemma nth_update_set_Stacked:
  "(heap[a := set_Stacked (heap ! a)]) ! b = (if b = a \<and> a < length heap then set_Stacked (heap ! a) else heap ! b)"
  by (cases "a < length heap") (auto simp: nth_list_update list_update_beyond)

lemma gating_ok_set_Stacked:
  "gating_ok config (heap[a := set_Stacked (heap ! a)]) cm = gating_ok config heap cm"
  by (auto simp: gating_ok_def nth_update_set_Stacked MergeStatus_set_Stacked split: option.splits)

lemma SetStackedCheck_loop_Cons:
  "SetStackedCheck_loop config (cm # rest) heap =
     (case PullRequest cm of
        None \<Rightarrow> SetStackedCheck_loop config rest heap
      | Some a \<Rightarrow>
          if gating_ok config heap cm
          then SetStackedCheck_loop config rest (heap[a := set_Stacked (heap ! a)])
          else heap)"
  by (auto simp: gating_ok_def split: option.splits)

lemma SetStackedCheck_loop_length:
  "length (SetStackedCheck_loop config xs heap) = length heap"
proof (induction xs arbitrary: heap)
  case Nil
  then show ?case by simp
next
  case (Cons cm rest)
  show ?case
    unfolding SetStackedCheck_loop_Cons by (simp add: Cons.IH split: option.splits)
qed

lemma SetStackedCheck_loop_gating:
  "gating_ok config (SetStackedCheck_loop config xs heap) c = gating_ok config heap c"
proof (induction xs arbitrary: heap)
  case Nil
  then show ?case by simp
next
  case (Cons cm rest)
  show ?case
    unfolding SetStackedCheck_loop_Cons
    by (simp add: Cons.IH gating_ok_set_Stacked split: option.splits)
qed

lemma SetStackedCheck_loop_Stacked:
  assumes "\<forall>c\<in>set xs. \<forall>a. PullRequest c = Some a \<longrightarrow> a < length heap"
  shows "Stacked (MergeStatus (SetStackedCheck_loop config xs heap ! b)) \<longleftrightarrow>
           Stacked (MergeStatus (heap ! b))
           \<or> (\<exists>ys c zs. xs = ys @ c # zs \<and> PullRequest c = Some b
                  \<and> list_all (gating_ok config heap) (ys @ [c]))"
  using assms
proof (induction xs arbitrary: heap)
  case Nil
  then show ?case by simp
next
  case (Cons cm rest)
  have split_ex: "\<And>P. (\<exists>ys c zs. cm # rest = ys @ c # zs \<and> P ys c) \<longleftrightarrow>
        P [] cm \<or> (\<exists>ys c zs. rest = ys @ c # zs \<and> P (cm # ys) c)"
    by (auto simp: Cons_eq_append_conv)
  show ?case
  proof (cases "PullRequest cm")
    case None
    then have g: "gating_ok config heap cm" by (simp add: gating_ok_def)
    have "Stacked (MergeStatus (SetStackedCheck_loop config (cm # rest) heap ! b)) \<longleftrightarrow>
          Stacked (MergeStatus (SetStackedCheck_loop config rest heap ! b))"
      using None by simp
    also have "\<dots> \<longleftrightarrow> Stacked (MergeStatus (heap ! b))
           \<or> (\<exists>ys c zs. rest = ys @ c # zs \<and> PullRequest c = Some b
                  \<and> list_all (gating_ok config heap) (ys @ [c]))"
      using Cons.IH [of heap] Cons.prems by simp
    also have "\<dots> \<longleftrightarrow> Stacked (MergeStatus (heap ! b))
           \<or> (\<exists>ys c zs. cm # rest = ys @ c # zs \<and> PullRequest c = Some b
                  \<and> list_all (gating_ok config heap) (ys @ [c]))"
      using None g
      by (subst split_ex [of "\<lambda>ys c. PullRequest c = Some b \<and> list_all (gating_ok config heap) (ys @ [c])"])
         simp
    finally show ?thesis .
  next
    case (Some a)
    with Cons.prems have valid: "a < length heap" by simp
    show ?thesis
    proof (cases "gating_ok config heap cm")
      case False
      have e: "SetStackedCheck_loop config (cm # rest) heap = heap"
        unfolding SetStackedCheck_loop_Cons using Some False by simp
      have n: "\<not> (\<exists>ys c zs. cm # rest = ys @ c # zs \<and> PullRequest c = Some b
                  \<and> list_all (gating_ok config heap) (ys @ [c]))"
        using False
        by (subst split_ex [of "\<lambda>ys c. PullRequest c = Some b \<and> list_all (gating_ok config heap) (ys @ [c])"])
           simp
      show ?thesis unfolding e using n by blast
    next
      case True
      let ?heap1 = "heap[a := set_Stacked (heap ! a)]"
      have v1: "\<forall>c\<in>set rest. \<forall>a. PullRequest c = Some a \<longrightarrow> a < length ?heap1"
        using Cons.prems by simp
      have g1: "gating_ok config ?heap1 = gating_ok config heap"
        by (rule ext) (rule gating_ok_set_Stacked)
      have s1: "Stacked (MergeStatus (?heap1 ! b)) \<longleftrightarrow> Stacked (MergeStatus (heap ! b)) \<or> b = a"
        using valid by (simp add: nth_update_set_Stacked MergeStatus_set_Stacked)
      have "Stacked (MergeStatus (SetStackedCheck_loop config (cm # rest) heap ! b)) \<longleftrightarrow>
            Stacked (MergeStatus (SetStackedCheck_loop config rest ?heap1 ! b))"
        unfolding SetStackedCheck_loop_Cons using Some True by simp
      also have "\<dots> \<longleftrightarrow> Stacked (MergeStatus (?heap1 ! b))
           \<or> (\<exists>ys c zs. rest = ys @ c # zs \<and> PullRequest c = Some b
                  \<and> list_all (gating_ok config ?heap1) (ys @ [c]))"
        using Cons.IH [OF v1] .
      also have "\<dots> \<longleftrightarrow> Stacked (MergeStatus (heap ! b))
           \<or> (\<exists>ys c zs. cm # rest = ys @ c # zs \<and> PullRequest c = Some b
                  \<and> list_all (gating_ok config heap) (ys @ [c]))"
        unfolding g1 s1 using Some True
        by (subst split_ex [of "\<lambda>ys c. PullRequest c = Some b \<and> list_all (gating_ok config heap) (ys @ [c])"])
           auto
      finally show ?thesis .
    qed
  qed
qed


lemma GeneratePullRequestMap_loop_inv:
  assumes "\<forall>k a. map_of prMap k = Some a \<longrightarrow> a < length heap \<and> CommitID (Commit_pr (heap ! a)) = k"
    and "\<forall>pr\<in>set heap. \<not> Stacked (MergeStatus pr)"
    and "GeneratePullRequestMap_loop nodes prMap heap = (prMap1, heap1)"
  shows "(\<forall>k a. map_of prMap1 k = Some a \<longrightarrow> a < length heap1 \<and> CommitID (Commit_pr (heap1 ! a)) = k)
         \<and> (\<forall>pr\<in>set heap1. \<not> Stacked (MergeStatus pr))"
  using assms
proof (induction nodes arbitrary: prMap heap)
  case Nil
  then show ?case by simp
next
  case (Cons prNode rest)
  let ?commitID = "CommitIdFromBranch (HeadRefName prNode)"
  show ?case
  proof (cases "?commitID = []")
    case True
    with Cons.prems(3) have "GeneratePullRequestMap_loop rest prMap heap = (prMap1, heap1)"
      by (simp add: Let_def)
    from Cons.IH [OF Cons.prems(1) Cons.prems(2) this] show ?thesis .
  next
    case False
    obtain ghpr where step: "GeneratePullRequestMap_loop rest
           (AList.update ?commitID (length heap) prMap) (heap @ [ghpr]) = (prMap1, heap1)"
      and cid: "CommitID (Commit_pr ghpr) = ?commitID"
      and st: "\<not> Stacked (MergeStatus ghpr)"
      using Cons.prems(3) False
      by (simp add: Let_def ComputeMergeStatus_def)
    have i1: "\<forall>k a. map_of (AList.update ?commitID (length heap) prMap) k = Some a \<longrightarrow>
                a < length (heap @ [ghpr]) \<and> CommitID (Commit_pr ((heap @ [ghpr]) ! a)) = k"
      using Cons.prems(1) cid by (auto simp: update_conv' nth_append less_Suc_eq)
    have i2: "\<forall>pr\<in>set (heap @ [ghpr]). \<not> Stacked (MergeStatus pr)"
      using Cons.prems(2) st by auto
    from Cons.IH [OF i1 i2 step] show ?thesis .
  qed
qed

lemma GeneratePullRequestMap_inv:
  assumes "GeneratePullRequestMap prAndStatus = (prMap, heap)"
  shows "(\<forall>k a. map_of prMap k = Some a \<longrightarrow> a < length heap \<and> CommitID (Commit_pr (heap ! a)) = k)
         \<and> (\<forall>pr\<in>set heap. \<not> Stacked (MergeStatus pr))"
  using GeneratePullRequestMap_loop_inv [of "[]" "[]" "PullRequests_Nodes prAndStatus" prMap heap] assms
  by (simp add: GeneratePullRequestMap_def)

lemma AssignPullRequests_step_fields:
  "PullRequest c = map_of prMap (CommitID (Commit c)) \<Longrightarrow>
     PullRequest (AssignPullRequests_step prSetMap prMap c) = map_of prMap (CommitID (Commit c))
     \<and> Commit (AssignPullRequests_step prSetMap prMap c) = Commit c"
  by (auto simp: AssignPullRequests_step_def split: option.splits)

lemma Repo_UpdateRepoToCommitIdToPrSet:
  "Repo (UpdateRepoToCommitIdToPrSet config gitCommits prMap) = Repo config"
  by (simp add: UpdateRepoToCommitIdToPrSet_def set_prSetMap_def)

lemma gating_ok_Repo:
  assumes "Repo config1 = Repo config"
  shows "gating_ok config1 heap cm = gating_ok config heap cm"
  unfolding gating_ok_def assms by (rule refl)

lemma unique_decomposition:
  assumes "distinct (map f (filter P xs))"
    and "xs = as @ x # bs" and "xs = as' @ y # bs'"
    and "P x" and "P y" and "f x = f y"
  shows "as = as' \<and> x = y \<and> bs = bs'"
  using assms
proof (induction as arbitrary: as' xs)
  case Nil
  show ?case
  proof (cases as')
    case Nil
    with Nil.prems show ?thesis by simp
  next
    case (Cons z as'')
    with Nil.prems have "y \<in> set bs" "xs = x # bs" by auto
    with Nil.prems(1,4,5,6) show ?thesis by (auto simp: image_iff)
  qed
next
  case (Cons w as1)
  show ?case
  proof (cases as')
    case Nil
    with Cons.prems have "x \<in> set (as1 @ x # bs)" "xs = y # as1 @ x # bs" by auto
    with Cons.prems(1,4,5,6) show ?thesis by (auto simp: image_iff)
  next
    case (Cons z as'')
    with Cons.prems have e: "as1 @ x # bs = as'' @ y # bs'" "w = z" by auto
    have d: "distinct (map f (filter P (as1 @ x # bs)))"
      using Cons.prems(1,2) by (auto split: if_splits)
    from Cons.IH [OF d refl e(1) Cons.prems(4,5,6)] e(2) Cons show ?thesis by simp
  qed
qed

lemma NewState_parts:
  assumes ns: "NewState config prAndStatus commits = (st, config1, heap)"
    and g: "GeneratePullRequestMap prAndStatus = (prMap, heap0)"
  shows "\<exists>gc. (\<forall>c\<in>set gc. PullRequest c = map_of prMap (CommitID (Commit c)))
              \<and> Repo config1 = Repo config
              \<and> LocalCommits st = AssignPullRequests config1 gc prMap
              \<and> heap = SetStackedCheck_loop config1 (rev (LocalCommits st)) heap0"
proof -
  let ?gc = "map (\<lambda>gitCommit. gitCommit\<lparr>PullRequest := map_of prMap (CommitID (Commit gitCommit))\<rparr>)
               (GenerateCommits commits)"
  have a: "\<forall>c\<in>set ?gc. PullRequest c = map_of prMap (CommitID (Commit c))"
    by simp
  from ns have b: "config1 = UpdateRepoToCommitIdToPrSet config ?gc prMap"
    unfolding NewState_def g Let_def by simp
  from ns have c: "LocalCommits st = AssignPullRequests config1 ?gc prMap"
    unfolding NewState_def g Let_def by auto
  from ns have d: "heap = SetStackedCheck_loop config1 (rev (LocalCommits st)) heap0"
    unfolding NewState_def g Let_def SetStackedCheck_def by auto
  from a b c d show ?thesis
    using Repo_UpdateRepoToCommitIdToPrSet by blast
qed


lemma AssignPullRequests_fields:
  assumes "\<forall>c\<in>set gc. PullRequest c = map_of prMap (CommitID (Commit c))"
    and "c \<in> set (AssignPullRequests config1 gc prMap)"
  shows "PullRequest c = map_of prMap (CommitID (Commit c))"
proof -
  from assms(2) obtain c0 where c0: "c0 \<in> set gc"
    and c: "c = AssignPullRequests_step (prSetMap_of config1) prMap c0"
    by (auto simp: AssignPullRequests_def)
  from assms(1) c0 have "PullRequest c0 = map_of prMap (CommitID (Commit c0))" by simp
  from AssignPullRequests_step_fields [OF this, of "prSetMap_of config1"] c show ?thesis by simp
qed

text \<open>
  C2, as amended. After state assembly the stacked flag of a local commit's pull
  request is true exactly when that commit and every older local commit satisfy the
  gating requirements of their own pull request (not WIP, no conflicts and, when the
  configuration requires them, checks passing and review approved; a commit without a
  pull request has nothing to satisfy), whatever PR set the commits are in. The commits
  \<open>older\<close> are those after \<open>cm\<close> in the head-first list. Commit-ids are unique among the
  local commits that have a pull request (invariant 1 of the data model): two commits
  with one commit-id would share one pull request object.
\<close>

theorem C2_stacked_after_assembly:
  assumes ns: "NewState config prAndStatus commits = (st, config1, heap)"
    and d: "distinct (map (\<lambda>c. CommitID (Commit c))
                       (filter (\<lambda>c. PullRequest c \<noteq> None) (LocalCommits st)))"
    and dec: "LocalCommits st = newer @ cm # older"
    and pr: "PullRequest cm = Some a"
  shows "Stacked (MergeStatus (heap ! a)) \<longleftrightarrow> list_all (gating_ok config heap) (cm # older)"
proof -
  obtain prMap heap0 where g: "GeneratePullRequestMap prAndStatus = (prMap, heap0)"
    by (cases "GeneratePullRequestMap prAndStatus")
  from NewState_parts [OF ns g] obtain gc where
    gc: "\<forall>c\<in>set gc. PullRequest c = map_of prMap (CommitID (Commit c))"
    and repo: "Repo config1 = Repo config"
    and cs: "LocalCommits st = AssignPullRequests config1 gc prMap"
    and heap: "heap = SetStackedCheck_loop config1 (rev (LocalCommits st)) heap0"
    by blast
  let ?cs = "LocalCommits st"
  from GeneratePullRequestMap_inv [OF g]
  have I1: "\<And>k a. map_of prMap k = Some a \<Longrightarrow> a < length heap0 \<and> CommitID (Commit_pr (heap0 ! a)) = k"
    and I2: "\<And>pr. pr \<in> set heap0 \<Longrightarrow> \<not> Stacked (MergeStatus pr)"
    by blast+
  have F: "\<And>c. c \<in> set ?cs \<Longrightarrow> PullRequest c = map_of prMap (CommitID (Commit c))"
    using AssignPullRequests_fields [OF gc] cs by simp
  have key: "\<And>c b. c \<in> set ?cs \<Longrightarrow> PullRequest c = Some b \<Longrightarrow>
               b < length heap0 \<and> CommitID (Commit_pr (heap0 ! b)) = CommitID (Commit c)"
  proof -
    fix c b assume "c \<in> set ?cs" "PullRequest c = Some b"
    then have "map_of prMap (CommitID (Commit c)) = Some b" using F by simp
    then show "b < length heap0 \<and> CommitID (Commit_pr (heap0 ! b)) = CommitID (Commit c)"
      by (rule I1)
  qed
  have valid: "\<forall>c\<in>set (rev ?cs). \<forall>a. PullRequest c = Some a \<longrightarrow> a < length heap0"
    using key by simp
  have cm_in: "cm \<in> set ?cs" using dec by simp
  have a_valid: "a < length heap0" using key [OF cm_in pr] by simp
  then have not0: "\<not> Stacked (MergeStatus (heap0 ! a))" using I2 by simp
  have G: "gating_ok config1 heap0 = gating_ok config heap"
  proof (rule ext)
    fix c
    have "gating_ok config1 heap0 c = gating_ok config1 heap c"
      unfolding heap by (rule SetStackedCheck_loop_gating [symmetric])
    also have "\<dots> = gating_ok config heap c"
      by (rule gating_ok_Repo [OF repo])
    finally show "gating_ok config1 heap0 c = gating_ok config heap c" .
  qed
  have loop0: "Stacked (MergeStatus (SetStackedCheck_loop config1 (rev ?cs) heap0 ! a)) \<longleftrightarrow>
           Stacked (MergeStatus (heap0 ! a))
           \<or> (\<exists>ys c zs. rev ?cs = ys @ c # zs \<and> PullRequest c = Some a
                  \<and> list_all (gating_ok config1 heap0) (ys @ [c]))"
    by (rule SetStackedCheck_loop_Stacked [OF valid])
  have loop: "Stacked (MergeStatus (heap ! a)) \<longleftrightarrow>
      (\<exists>ys c zs. rev ?cs = ys @ c # zs \<and> PullRequest c = Some a
                  \<and> list_all (gating_ok config heap) (ys @ [c]))"
    using loop0 not0 unfolding G heap [symmetric] by simp
  show ?thesis
  proof
    assume "Stacked (MergeStatus (heap ! a))"
    with loop obtain ys c zs where r: "rev ?cs = ys @ c # zs" and pc: "PullRequest c = Some a"
      and la: "list_all (gating_ok config heap) (ys @ [c])"
      by blast
    from r have "rev (rev ?cs) = rev (ys @ c # zs)" by simp
    then have r': "?cs = rev zs @ c # rev ys" by simp
    then have c_in: "c \<in> set ?cs" by simp
    have k: "CommitID (Commit c) = CommitID (Commit cm)"
      using key [OF c_in pc] key [OF cm_in pr] by simp
    have pc': "PullRequest c \<noteq> None" and pr': "PullRequest cm \<noteq> None"
      using pc pr by simp_all
    from unique_decomposition [OF d r' dec pc' pr' k]
    have "c = cm" "rev ys = older" by simp_all
    then have "ys = rev older" by auto
    with la \<open>c = cm\<close> show "list_all (gating_ok config heap) (cm # older)"
      by (auto simp: list_all_iff)
  next
    assume la: "list_all (gating_ok config heap) (cm # older)"
    have "rev ?cs = rev older @ cm # rev newer"
      using dec by simp
    moreover have "list_all (gating_ok config heap) (rev older @ [cm])"
      using la by (auto simp: list_all_iff)
    ultimately show "Stacked (MergeStatus (heap ! a))"
      using loop pr by blast
  qed
qed


text \<open>
  C2 as stated fails. The newer commit is alone in PR set 1 and its pull request
  satisfies every requirement, so no pull request below it in its set fails; but the
  older commit, in PR set 0, is WIP, the sweep stops there, and the newer commit's pull
  request is not stacked.
\<close>

theorem C2_counterexample:
  "PullRequest (LocalCommits (fst (NewState stackConfig stackResponse stackCommits)) ! 0) = Some 1
   \<and> PRIndex (LocalCommits (fst (NewState stackConfig stackResponse stackCommits)) ! 0) = Some 1
   \<and> PRIndex (LocalCommits (fst (NewState stackConfig stackResponse stackCommits)) ! 1) = Some 0
   \<and> spec_stacked stackConfig (snd (snd (NewState stackConfig stackResponse stackCommits)))
         (LocalCommits (fst (NewState stackConfig stackResponse stackCommits))) 0
   \<and> \<not> Stacked (MergeStatus (snd (snd (NewState stackConfig stackResponse stackCommits)) ! 1))"
  by code_simp

text \<open>
  C2 as amended, on the two examples: with both commits ready the newest pull request
  is stacked, with the older commit WIP it is not.
\<close>

theorem C2_witness:
  "PullRequest (hd (LocalCommits (fst (NewState stackConfig stackResponse readyCommits)))) = Some 1
   \<and> Stacked (MergeStatus (snd (snd (NewState stackConfig stackResponse readyCommits)) ! 1))
   \<and> PullRequest (hd (LocalCommits (fst (NewState stackConfig stackResponse stackCommits)))) = Some 1
   \<and> \<not> Stacked (MergeStatus (snd (snd (NewState stackConfig stackResponse stackCommits)) ! 1))"
proof -
  let ?R = "NewState stackConfig stackResponse readyCommits"
  let ?W = "NewState stackConfig stackResponse stackCommits"
  have nsR: "?R = (fst ?R, fst (snd ?R), snd (snd ?R))" by simp
  have nsW: "?W = (fst ?W, fst (snd ?W), snd (snd ?W))" by simp
  have dR: "distinct (map (\<lambda>c. CommitID (Commit c))
              (filter (\<lambda>c. PullRequest c \<noteq> None) (LocalCommits (fst ?R))))"
    by code_simp
  have dW: "distinct (map (\<lambda>c. CommitID (Commit c))
              (filter (\<lambda>c. PullRequest c \<noteq> None) (LocalCommits (fst ?W))))"
    by code_simp
  have decR: "LocalCommits (fst ?R) = [] @ hd (LocalCommits (fst ?R)) # tl (LocalCommits (fst ?R))"
    by code_simp
  have decW: "LocalCommits (fst ?W) = [] @ hd (LocalCommits (fst ?W)) # tl (LocalCommits (fst ?W))"
    by code_simp
  have prR: "PullRequest (hd (LocalCommits (fst ?R))) = Some 1" by code_simp
  have prW: "PullRequest (hd (LocalCommits (fst ?W))) = Some 1" by code_simp
  have gR: "list_all (gating_ok stackConfig (snd (snd ?R)))
              (hd (LocalCommits (fst ?R)) # tl (LocalCommits (fst ?R)))"
    by code_simp
  have gW: "\<not> list_all (gating_ok stackConfig (snd (snd ?W)))
              (hd (LocalCommits (fst ?W)) # tl (LocalCommits (fst ?W)))"
    by code_simp
  from C2_stacked_after_assembly [OF nsR dR decR prR] gR
  have sR: "Stacked (MergeStatus (snd (snd ?R) ! 1))" by simp
  from C2_stacked_after_assembly [OF nsW dW decW prW] gW
  have sW: "\<not> Stacked (MergeStatus (snd (snd ?W) ! 1))" by simp
  from prR sR prW sW show ?thesis by simp
qed

subsection \<open>Closing orphaned pull requests\<close>

lemma GeneratePullRequestMap_loop_nodes:
  assumes "\<forall>k a. map_of prMap k = Some a \<longrightarrow> a < length heap \<and>
             (\<exists>n\<in>N. CommitIdFromBranch (HeadRefName n) = k
                   \<and> Number (heap ! a) = Number_node n \<and> FromBranch (heap ! a) = HeadRefName n)"
    and "GeneratePullRequestMap_loop nodes prMap heap = (prMap1, heap1)"
  shows "\<forall>k a. map_of prMap1 k = Some a \<longrightarrow> a < length heap1 \<and>
             (\<exists>n\<in>N \<union> set nodes. CommitIdFromBranch (HeadRefName n) = k
                   \<and> Number (heap1 ! a) = Number_node n \<and> FromBranch (heap1 ! a) = HeadRefName n)"
  using assms
proof (induction nodes arbitrary: prMap heap N)
  case Nil
  then show ?case by simp
next
  case (Cons prNode rest)
  let ?commitID = "CommitIdFromBranch (HeadRefName prNode)"
  show ?case
  proof (cases "?commitID = []")
    case True
    with Cons.prems(2) have "GeneratePullRequestMap_loop rest prMap heap = (prMap1, heap1)"
      by (simp add: Let_def)
    from Cons.IH [OF Cons.prems(1) this] show ?thesis by auto
  next
    case False
    obtain ghpr where step: "GeneratePullRequestMap_loop rest
           (AList.update ?commitID (length heap) prMap) (heap @ [ghpr]) = (prMap1, heap1)"
      and num: "Number ghpr = Number_node prNode"
      and br: "FromBranch ghpr = HeadRefName prNode"
      using Cons.prems(2) False
      by (simp add: Let_def)
    have i1: "\<forall>k a. map_of (AList.update ?commitID (length heap) prMap) k = Some a \<longrightarrow>
                a < length (heap @ [ghpr]) \<and>
                (\<exists>n\<in>insert prNode N. CommitIdFromBranch (HeadRefName n) = k
                   \<and> Number ((heap @ [ghpr]) ! a) = Number_node n
                   \<and> FromBranch ((heap @ [ghpr]) ! a) = HeadRefName n)"
      using Cons.prems(1) num br by (auto simp: update_conv' nth_append less_Suc_eq)
    from Cons.IH [OF i1 step] show ?thesis by auto
  qed
qed

lemma GeneratePullRequestMap_loop_distinct:
  "distinct (map fst prMap) \<Longrightarrow>
     distinct (map fst (fst (GeneratePullRequestMap_loop nodes prMap heap)))"
  by (induction nodes arbitrary: prMap heap) (auto simp: Let_def distinct_update)

lemma GetOrphanedPRs_loop_entries: "gc_entries (GetOrphanedPRs_loop cs gc) = gc_entries gc"
  by (induction cs arbitrary: gc) (auto simp: Lookup_def)

lemma GetOrphanedPRs_loop_accessed:
  "gc_accessed (GetOrphanedPRs_loop cs gc) = gc_accessed gc \<union> (\<lambda>c. CommitID (Commit c)) ` set cs"
  by (induction cs arbitrary: gc) (auto simp: Lookup_def)

lemma GetOrphanedPRs_iff:
  "pr \<in> GetOrphanedPRs gitCommits prMap \<longleftrightarrow>
     (\<exists>k a. (k, a) \<in> set prMap \<and> pr = Some a \<and> k \<notin> (\<lambda>c. CommitID (Commit c)) ` set gitCommits)"
  by (auto simp: GetOrphanedPRs_def GetUnaccessed_def GetOrphanedPRs_loop_entries
      GetOrphanedPRs_loop_accessed NewGC_def)

lemma ApplyIndices_loop_orphaned:
  "orphaned \<subseteq> fst (snd (ApplyIndices_loop dest ci cs orphaned mutated))"
proof (induction cs arbitrary: orphaned mutated)
  case Nil
  then show ?case by simp
next
  case (Cons cm rest)
  obtain cm1 orphaned1 mutated1 where s: "ApplyIndices_step dest ci cm orphaned mutated = (cm1, orphaned1, mutated1)"
    by (cases "ApplyIndices_step dest ci cm orphaned mutated") auto
  then have "orphaned \<subseteq> orphaned1"
    by (auto simp: ApplyIndices_step_def Let_def split: if_splits)
  moreover have "orphaned1 \<subseteq> fst (snd (ApplyIndices_loop dest ci rest orphaned1 mutated1))"
    by (rule Cons.IH)
  ultimately show ?case using s by (auto split: prod.splits)
qed

lemma ApplyIndices_orphaned: "OrphanedPRs s \<subseteq> OrphanedPRs (fst (ApplyIndices s indices))"
proof (cases "DestinationPRIndex indices = None \<and> CommitIndexes indices = {}")
  case True
  then show ?thesis by (simp add: ApplyIndices_def)
next
  case False
  define dest where "dest = (case DestinationPRIndex indices of
                     None \<Rightarrow> nextDestinationPRIndex (LocalCommits s) 0
                   | Some d \<Rightarrow> d)"
  obtain commits orphaned mutated where l:
    "ApplyIndices_loop dest (CommitIndexes indices) (LocalCommits s) (OrphanedPRs s)
       (MutatedPRSets s) = (commits, orphaned, mutated)"
    by (cases "ApplyIndices_loop dest (CommitIndexes indices) (LocalCommits s) (OrphanedPRs s)
       (MutatedPRSets s)") auto
  from ApplyIndices_loop_orphaned [of "OrphanedPRs s" dest "CommitIndexes indices"
      "LocalCommits s" "MutatedPRSets s"] l
  have "OrphanedPRs s \<subseteq> orphaned" by simp
  moreover have "OrphanedPRs (fst (ApplyIndices s indices)) = orphaned"
    using False l by (auto simp: ApplyIndices_def Let_def dest_def)
  ultimately show ?thesis by simp
qed

lemma set_Stacked_branch:
  "Number (set_Stacked pr) = Number pr" "FromBranch (set_Stacked pr) = FromBranch pr"
  by (simp_all add: set_Stacked_def)

lemma SetStackedCheck_loop_branch:
  "Number (SetStackedCheck_loop config xs heap ! b) = Number (heap ! b)
   \<and> FromBranch (SetStackedCheck_loop config xs heap ! b) = FromBranch (heap ! b)"
proof (induction xs arbitrary: heap)
  case Nil
  then show ?case by simp
next
  case (Cons cm rest)
  have aux: "Number ((heap[a := set_Stacked (heap ! a)]) ! b) = Number (heap ! b)
     \<and> FromBranch ((heap[a := set_Stacked (heap ! a)]) ! b) = FromBranch (heap ! b)" for a
    by (simp add: nth_update_set_Stacked set_Stacked_branch)
  show ?case
    unfolding SetStackedCheck_loop_Cons
    by (simp add: Cons.IH aux split: option.splits)
qed

lemma UpdatePRSets_DeleteOrphanedPRs_calls:
  "fst (UpdatePRSets_DeleteOrphanedPRs config fails heap orphans) =
     map (\<lambda>pr. case pr of
                 None \<Rightarrow> []
               | Some a \<Rightarrow>
                   EditPullRequest2_closed (GitHubRepoOwner (Repo config))
                       (GitHubRepoName (Repo config)) (Number (heap ! a))
                   # (if fails (EditPullRequest2_closed (GitHubRepoOwner (Repo config))
                                  (GitHubRepoName (Repo config)) (Number (heap ! a)))
                      then []
                      else [Push (GitHubRemote (Repo config))
                              ['':refs/heads/'' @ FromBranch (heap ! a)]]))
       orphans"
  by (auto simp: UpdatePRSets_DeleteOrphanedPRs_def SliceMap_def DeletePullRequest_def
      DeleteRemoteBranch_def Let_def split: option.splits)

lemma NewState_orphans:
  assumes ns: "NewState config prAndStatus commits = (st, config1, heap)"
    and g: "GeneratePullRequestMap prAndStatus = (prMap, heap0)"
  shows "OrphanedPRs st =
           {Some a | k a. (k, a) \<in> set prMap \<and> k \<notin> (\<lambda>c. CommitId (Message c)) ` set commits}"
proof -
  let ?gc = "map (\<lambda>gitCommit. gitCommit\<lparr>PullRequest := map_of prMap (CommitID (Commit gitCommit))\<rparr>)
               (GenerateCommits commits)"
  from ns have "OrphanedPRs st = GetOrphanedPRs ?gc prMap"
    unfolding NewState_def g Let_def by auto
  moreover have "(\<lambda>c. CommitID (Commit c)) ` set ?gc = (\<lambda>c. CommitId (Message c)) ` set commits"
    using GenerateCommits_ids [of commits] by (simp add: image_image)
  ultimately show ?thesis
    by (intro set_eqI) (simp add: GetOrphanedPRs_iff, blast)
qed


lemma GeneratePullRequestMap_nodes:
  assumes "GeneratePullRequestMap prAndStatus = (prMap, heap0)"
  shows "distinct (map fst prMap)"
    and "dom (map_of prMap) = {k. k \<noteq> [] \<and> (\<exists>n\<in>set (PullRequests_Nodes prAndStatus).
                                               CommitIdFromBranch (HeadRefName n) = k)}"
    and "\<forall>k a. map_of prMap k = Some a \<longrightarrow>
             (\<exists>n\<in>set (PullRequests_Nodes prAndStatus). CommitIdFromBranch (HeadRefName n) = k
                   \<and> Number (heap0 ! a) = Number_node n \<and> FromBranch (heap0 ! a) = HeadRefName n)"
proof -
  show "distinct (map fst prMap)"
    using GeneratePullRequestMap_loop_distinct [of "[]" "PullRequests_Nodes prAndStatus" "[]"] assms
    by (simp add: GeneratePullRequestMap_def)
  show "dom (map_of prMap) = {k. k \<noteq> [] \<and> (\<exists>n\<in>set (PullRequests_Nodes prAndStatus).
                                               CommitIdFromBranch (HeadRefName n) = k)}"
    using GeneratePullRequestMap_loop_dom [of "PullRequests_Nodes prAndStatus" "[]" "[]"] assms
    by (simp add: GeneratePullRequestMap_def)
  show "\<forall>k a. map_of prMap k = Some a \<longrightarrow>
             (\<exists>n\<in>set (PullRequests_Nodes prAndStatus). CommitIdFromBranch (HeadRefName n) = k
                   \<and> Number (heap0 ! a) = Number_node n \<and> FromBranch (heap0 ! a) = HeadRefName n)"
    using GeneratePullRequestMap_loop_nodes [of "[]" "[]" "{}" "PullRequests_Nodes prAndStatus"
        prMap heap0] assms
    by (simp add: GeneratePullRequestMap_def)
qed

text \<open>
  C7, as amended, for the PR-set update (\<^verbatim>\<open>UpdatePRSets\<close>): the state is assembled
  from the forge's answer and the local unmerged commits, the selection is applied, and
  \<open>orphans\<close> is the slice of the state's orphaned pull requests
  (\<^verbatim>\<open>state.OrphanedPRs.ToSlice()\<close>, in whatever order). Take an open pull request of
  the answer whose head ref encodes a commit-id that no local commit carries. Then the
  pull request recorded under that commit-id (a pull request of the answer whose head
  ref encodes it: the same one when no other head ref does) is among the orphans, and
  the calls made for it are exactly the edit that sets its state to closed and, if that
  edit did not fail, the push that deletes its remote branch. No call of the step, for
  any orphan, is a comment.
\<close>

theorem C7_orphan_closure:
  assumes ns: "NewState config prAndStatus commits = (state, config1, heap)"
    and ai: "ApplyIndices state indices = (state1, indices1)"
    and sl: "set orphans = OrphanedPRs state1"
    and nd: "prNode \<in> set (PullRequests_Nodes prAndStatus)"
    and cm: "CommitIdFromBranch (HeadRefName prNode) \<noteq> []"
    and gone: "\<forall>c\<in>set commits. CommitId (Message c) \<noteq> CommitIdFromBranch (HeadRefName prNode)"
  shows "(\<exists>i<length orphans. \<exists>n\<in>set (PullRequests_Nodes prAndStatus).
            CommitIdFromBranch (HeadRefName n) = CommitIdFromBranch (HeadRefName prNode)
            \<and> fst (UpdatePRSets_DeleteOrphanedPRs config1 fails heap orphans) ! i =
                EditPullRequest2_closed (GitHubRepoOwner (Repo config))
                    (GitHubRepoName (Repo config)) (Number_node n)
                # (if fails (EditPullRequest2_closed (GitHubRepoOwner (Repo config))
                               (GitHubRepoName (Repo config)) (Number_node n))
                   then []
                   else [Push (GitHubRemote (Repo config)) ['':refs/heads/'' @ HeadRefName n]]))
         \<and> (\<forall>calls\<in>set (fst (UpdatePRSets_DeleteOrphanedPRs config1 fails heap orphans)).
              \<forall>call\<in>set calls. \<forall>i msg. call \<noteq> CommentPullRequest i msg)"
proof -
  let ?k = "CommitIdFromBranch (HeadRefName prNode)"
  obtain prMap heap0 where g: "GeneratePullRequestMap prAndStatus = (prMap, heap0)"
    by (cases "GeneratePullRequestMap prAndStatus") auto
  note gm = GeneratePullRequestMap_nodes [OF g]
  from nd cm gm(2) have "?k \<in> dom (map_of prMap)" by blast
  then obtain a where a: "map_of prMap ?k = Some a" by blast
  then have ka: "(?k, a) \<in> set prMap" by (rule map_of_SomeD)
  from gone have "?k \<notin> (\<lambda>c. CommitId (Message c)) ` set commits" by auto
  with ka NewState_orphans [OF ns g] have "Some a \<in> OrphanedPRs state" by blast
  moreover have "OrphanedPRs state \<subseteq> OrphanedPRs state1"
    using ApplyIndices_orphaned [of state indices] ai by simp
  ultimately have "Some a \<in> set orphans" using sl by blast
  then obtain i where i: "i < length orphans" and oi: "orphans ! i = Some a"
    by (auto simp: in_set_conv_nth)
  from gm(3) a obtain n where n: "n \<in> set (PullRequests_Nodes prAndStatus)"
    and nk: "CommitIdFromBranch (HeadRefName n) = ?k"
    and num0: "Number (heap0 ! a) = Number_node n"
    and br0: "FromBranch (heap0 ! a) = HeadRefName n"
    by blast
  from NewState_parts [OF ns g] obtain gc where rp: "Repo config1 = Repo config"
    and hp: "heap = SetStackedCheck_loop config1 (rev (LocalCommits state)) heap0"
    by blast
  from hp num0 br0 have num: "Number (heap ! a) = Number_node n"
    and br: "FromBranch (heap ! a) = HeadRefName n"
    by (simp_all add: SetStackedCheck_loop_branch)
  have calls: "fst (UpdatePRSets_DeleteOrphanedPRs config1 fails heap orphans) ! i =
                EditPullRequest2_closed (GitHubRepoOwner (Repo config))
                    (GitHubRepoName (Repo config)) (Number_node n)
                # (if fails (EditPullRequest2_closed (GitHubRepoOwner (Repo config))
                               (GitHubRepoName (Repo config)) (Number_node n))
                   then []
                   else [Push (GitHubRemote (Repo config)) ['':refs/heads/'' @ HeadRefName n]])"
    unfolding UpdatePRSets_DeleteOrphanedPRs_calls using i oi by (simp add: rp num br)
  have nocomment: "\<forall>calls\<in>set (fst (UpdatePRSets_DeleteOrphanedPRs config1 fails heap orphans)).
              \<forall>call\<in>set calls. \<forall>i msg. call \<noteq> CommentPullRequest i msg"
    unfolding UpdatePRSets_DeleteOrphanedPRs_calls by (auto split: option.splits if_splits)
  from i n nk calls nocomment show ?thesis by blast
qed

text \<open>
  C7 as stated fails in the PR-set update. The forge has three open pull requests of the
  tool, for the commit-ids \<^verbatim>\<open>aaaaaaaa\<close>, \<^verbatim>\<open>deadbeef\<close> and \<^verbatim>\<open>bbbbbbbb\<close>; the local
  commits are \<^verbatim>\<open>bbbbbbbb\<close> and \<^verbatim>\<open>aaaaaaaa\<close>. The pull request of \<^verbatim>\<open>deadbeef\<close> is
  the one orphan; with no failing call it is closed and its branch is deleted, and no
  comment is posted on it.
\<close>

theorem C7_counterexample:
  "(case NewState stackConfig goneResponse readyCommits of
      (state, config1, heap) \<Rightarrow>
        map (\<lambda>c. CommitID (Commit c)) (LocalCommits state) = [''bbbbbbbb'', ''aaaaaaaa'']
        \<and> CommitID (Commit_pr (heap ! 1)) = ''deadbeef''
        \<and> OrphanedPRs (fst (ApplyIndices state goneSelection)) = set [Some 1]
        \<and> fst (UpdatePRSets_DeleteOrphanedPRs config1 noFailure heap [Some 1])
            = [[EditPullRequest2_closed ''owner'' ''repo'' 7,
                Push ''origin'' ['':refs/heads/spr/main/deadbeef'']]]
        \<and> \<not> spec_orphan_closed config1 (heap ! 1)
              (concat (fst (UpdatePRSets_DeleteOrphanedPRs config1 noFailure heap [Some 1]))))"
  by code_simp

text \<open>C7 as amended, on the same answer, commits and selection, with no failing call.\<close>

theorem C7_witness:
  "set [Some 1] = OrphanedPRs (fst (ApplyIndices
       (fst (NewState stackConfig goneResponse readyCommits)) goneSelection))
   \<and> fst (UpdatePRSets_DeleteOrphanedPRs
            (fst (snd (NewState stackConfig goneResponse readyCommits))) noFailure
            (snd (snd (NewState stackConfig goneResponse readyCommits))) [Some 1]) ! 0
       = [EditPullRequest2_closed ''owner'' ''repo'' 7,
          Push ''origin'' ['':refs/heads/spr/main/deadbeef'']]
   \<and> \<not> list_ex (is_comment_on (snd (snd (NewState stackConfig goneResponse readyCommits)) ! 1))
         (concat (fst (UpdatePRSets_DeleteOrphanedPRs
            (fst (snd (NewState stackConfig goneResponse readyCommits))) noFailure
            (snd (snd (NewState stackConfig goneResponse readyCommits))) [Some 1])))"
proof -
  let ?N = "NewState stackConfig goneResponse readyCommits"
  let ?A = "ApplyIndices (fst ?N) goneSelection"
  let ?n1 = "stackNode ''aaaaaaaa'' 1 ''main'' ''Feature 1''"
  let ?n7 = "stackNode ''deadbeef'' 7 ''main'' ''Feature''"
  let ?n2 = "stackNode ''bbbbbbbb'' 2 ''main'' ''Feature 2''"
  let ?T = "fst (UpdatePRSets_DeleteOrphanedPRs (fst (snd ?N)) noFailure (snd (snd ?N)) [Some 1])"
  have ns: "?N = (fst ?N, fst (snd ?N), snd (snd ?N))" by simp
  have ai: "?A = (fst ?A, snd ?A)" by simp
  have sl: "set [Some 1] = OrphanedPRs (fst ?A)" by code_simp
  have nodes: "PullRequests_Nodes goneResponse = [?n1, ?n7, ?n2]" by (simp add: goneResponse_def)
  have nd: "?n7 \<in> set (PullRequests_Nodes goneResponse)" by (simp add: nodes)
  have k1: "CommitIdFromBranch (HeadRefName ?n1) = ''aaaaaaaa''" by code_simp
  have k7: "CommitIdFromBranch (HeadRefName ?n7) = ''deadbeef''" by code_simp
  have k2: "CommitIdFromBranch (HeadRefName ?n2) = ''bbbbbbbb''" by code_simp
  have cm: "CommitIdFromBranch (HeadRefName ?n7) \<noteq> []" by (simp add: k7)
  have gone: "\<forall>c\<in>set readyCommits. CommitId (Message c) \<noteq> CommitIdFromBranch (HeadRefName ?n7)"
    by code_simp
  have cfg: "Repo stackConfig = \<lparr>GitHubRepoOwner = ''owner'', GitHubRepoName = ''repo'',
       GitHubRemote = ''origin'', RequireChecks = True, RequireApproval = True, MergeCheck = []\<rparr>"
    by (simp add: stackConfig_def)
  have n7: "Number_node ?n7 = 7" "HeadRefName ?n7 = ''spr/main/deadbeef''"
    by (simp_all add: stackNode_def)
  note c7 = C7_orphan_closure [OF ns ai sl nd cm gone, of noFailure]
  from c7 obtain i n where i: "i < length [Some (1::nat)]"
    and n: "n \<in> set (PullRequests_Nodes goneResponse)"
    and nk: "CommitIdFromBranch (HeadRefName n) = CommitIdFromBranch (HeadRefName ?n7)"
    and calls: "?T ! i =
        EditPullRequest2_closed (GitHubRepoOwner (Repo stackConfig))
            (GitHubRepoName (Repo stackConfig)) (Number_node n)
        # (if noFailure (EditPullRequest2_closed (GitHubRepoOwner (Repo stackConfig))
                       (GitHubRepoName (Repo stackConfig)) (Number_node n))
           then []
           else [Push (GitHubRemote (Repo stackConfig)) ['':refs/heads/'' @ HeadRefName n]])"
    by blast
  from i have i0: "i = 0" by simp
  from n nk have nn: "n = ?n7" using k1 k2 k7 by (auto simp: nodes)
  from calls have a: "?T ! 0 = [EditPullRequest2_closed ''owner'' ''repo'' 7,
          Push ''origin'' ['':refs/heads/spr/main/deadbeef'']]"
    unfolding i0 nn by (simp add: cfg n7 noFailure_def)
  from c7 have "\<forall>calls\<in>set ?T. \<forall>call\<in>set calls. \<forall>i msg. call \<noteq> CommentPullRequest i msg"
    by blast
  then have b: "\<not> list_ex (is_comment_on (snd (snd ?N) ! 1)) (concat ?T)"
    by (auto simp: list_ex_iff is_comment_on_def split: forge_call.splits)
  from sl a b show ?thesis by simp
qed

end
